theory Spec2Isabelle
  imports Complex_Main "HOL-Library.Signed_Division" "HOL-Library.Monad_Syntax"
begin

section \<open>Values shared by the hooks and the shader\<close>

text \<open>
  JavaScript and GLSL numbers are modelled as real numbers: arithmetic is exact, there is
  no rounding, no NaN and no Infinity. A quotient of the CPU code is therefore meaningful
  only where its divisor is not zero, and the theorems about such quotients say so.
  A \<open>THREE.Vector2\<close> is a pair of numbers, a cell id is such a vector whose components
  are whole numbers.
\<close>

type_synonym vec2 = "real \<times> real"
type_synonym vec3 = "real \<times> real \<times> real"
type_synonym vec4 = "real \<times> real \<times> real \<times> real"

text \<open>A value that may be \<open>null\<close> or \<open>undefined\<close> (\<open>cellId: any | null\<close>, a missing array slot).\<close>

datatype 'a js = Null | Undefined | Val 'a

text \<open>
  \<open>interface Project\<close>: the \<open>video\<close> field is optional; the field \<open>image\<close> is named
  \<open>image_url\<close> here.
\<close>

record Project =
  title :: string
  image_url :: string
  year :: int
  href :: string
  video :: "string option"

section \<open>hookUtils.ts\<close>

text \<open>
  The remainder operator \<open>%\<close> of JavaScript on whole numbers: the result has the sign of
  the dividend (truncated division), unlike \<open>mod\<close> of HOL. The source takes it only with
  a divisor that its guard has found positive.
\<close>

definition js_rem :: "int \<Rightarrow> int \<Rightarrow> int" where
  "js_rem a b = a smod b"

text \<open>Reading \<open>xs[i]\<close> in JavaScript: a slot outside the array is \<open>undefined\<close>.\<close>

definition js_index :: "'a list \<Rightarrow> int \<Rightarrow> 'a js" where
  "js_index xs i = (if 0 \<le> i \<and> i < int (length xs) then Val (xs ! nat i) else Undefined)"

definition flatIndex :: "vec2 \<Rightarrow> int" where
  "flatIndex cid = \<lfloor>fst cid\<rfloor> + \<lfloor>snd cid\<rfloor> * 3"

definition projectIndex :: "vec2 \<Rightarrow> nat \<Rightarrow> int" where
  "projectIndex cid n = js_rem (js_rem (flatIndex cid) (int n) + int n) (int n)"

text \<open>
  \<open>getProjectByCellId\<close>: the guard \<open>!id || !projects || projects.length === 0\<close> returns
  \<open>null\<close>; otherwise the project at the wrapped index.
\<close>

fun getProjectByCellId :: "vec2 js \<Rightarrow> 'p list js \<Rightarrow> 'p js" where
  "getProjectByCellId (Val cid) (Val projects) =
     (if length projects = 0 then Null
      else js_index projects (projectIndex cid (length projects)))"
| "getProjectByCellId _ _ = Null"


section \<open>Vectors (THREE.Vector2)\<close>

definition vadd :: "vec2 \<Rightarrow> vec2 \<Rightarrow> vec2" where
  "vadd a b = (fst a + fst b, snd a + snd b)"

definition vsub :: "vec2 \<Rightarrow> vec2 \<Rightarrow> vec2" where
  "vsub a b = (fst a - fst b, snd a - snd b)"

definition multiplyScalar :: "vec2 \<Rightarrow> real \<Rightarrow> vec2" where
  "multiplyScalar a k = (fst a * k, snd a * k)"

definition addScalar :: "vec2 \<Rightarrow> real \<Rightarrow> vec2" where
  "addScalar a k = (fst a + k, snd a + k)"

definition vmultiply :: "vec2 \<Rightarrow> vec2 \<Rightarrow> vec2" where
  "vmultiply a b = (fst a * fst b, snd a * snd b)"

definition vlength :: "vec2 \<Rightarrow> real" where
  "vlength a = sqrt (fst a * fst a + snd a * snd a)"

definition vlerp :: "vec2 \<Rightarrow> vec2 \<Rightarrow> real \<Rightarrow> vec2" where
  "vlerp a b t = (fst a + (fst b - fst a) * t, snd a + (snd b - snd a) * t)"

section \<open>config.ts\<close>

definition springStiffness :: real where "springStiffness = 0.05"
definition damping :: real where "damping = 0.75"
definition lerpFactor :: real where "lerpFactor = 0.1"
definition swipeThreshold :: real where "swipeThreshold = 50"
definition tapThreshold :: real where "tapThreshold = 10"
definition zoomedInLevel :: real where "zoomedInLevel = 0.3"

section \<open>The shared context (types.ts, useThreeSetup.ts)\<close>

text \<open>
  The uniforms that \<open>plane.material.uniforms\<close> stores by value. The uniforms \<open>uOffset\<close> and
  \<open>uMousePos\<close> hold the very vector objects \<open>context.offset\<close> and \<open>context.mousePos\<close>, so
  they are read from the context (see \<open>glUniforms\<close> below); the three textures are
  arguments of the shader functions.
\<close>

record uniforms =
  uResolution :: vec2
  uBorderColor :: vec4
  uHoverColor :: vec4
  uBackgroundColor :: vec4
  uZoom :: real
  uDistortionStrength :: real
  uCellSize :: real
  uTextureCount :: real
  uHoveredCellId :: vec2
  uIsVideoActive :: bool
  uZoomProgress :: real
  uTime :: real
  uIsMobile :: bool
  uHoverEnabled :: bool
  uOptimizeMobile :: bool

text \<open>The hidden \<open>video\<close> element: the two attributes the hooks read and write.\<close>

record video_element =
  src :: string
  paused :: bool

text \<open>
  \<open>interface ThreeContext\<close>, after \<open>useThreeSetup\<close> has created the vectors. The plane is
  absent when the renderer could not be built, the video element until \<open>useVideoManager\<close>
  has created it. The library handle \<open>THREE\<close> is stored before the vectors are created,
  so it is present in every context described here and the tests \<open>!THREE\<close> of the source
  are false. The last field is the React state \<open>zoomedProject\<close> of \<open>useInteraction\<close>,
  kept beside the context.
\<close>

record ThreeContext =
  plane :: "uniforms option"
  videoRef :: "video_element option"
  isDragging :: bool
  isZoomed :: bool
  previousMouse :: vec2
  clickStart :: vec2
  offset :: vec2
  targetOffset :: vec2
  offsetVelocity :: vec2
  mousePos :: vec2
  targetMousePos :: vec2
  zoom :: real
  targetZoom :: real
  distortion :: real
  targetDistortion :: real
  zoomProgress :: real
  lastOffset :: vec2
  lastZoom :: real
  videoNonce :: nat
  hoveredCellId :: "vec2 js"
  zoomedCellId :: "vec2 js"
  zoomedProject :: "Project js"

text \<open>
  The context as \<open>useThreeSetup\<close> leaves it: \<open>AnimationConfig.initialState\<close>, the fresh
  vectors and the initial uniforms (a fresh \<open>THREE.Vector4\<close> is \<open>(0, 0, 0, 1)\<close>).
\<close>

definition initialUniforms :: "bool \<Rightarrow> uniforms" where
  "initialUniforms isMobile =
     \<lparr> uResolution = (0, 0), uBorderColor = (0, 0, 0, 1), uHoverColor = (0, 0, 0, 1),
       uBackgroundColor = (0, 0, 0, 1), uZoom = 1, uDistortionStrength = 1, uCellSize = 0.75,
       uTextureCount = 0, uHoveredCellId = (-999, -999), uIsVideoActive = False,
       uZoomProgress = 0, uTime = 0, uIsMobile = isMobile, uHoverEnabled = True,
       uOptimizeMobile = True \<rparr>"

definition initialContext :: "bool \<Rightarrow> ThreeContext" where
  "initialContext isMobile =
     \<lparr> plane = Some (initialUniforms isMobile), videoRef = None,
       isDragging = False, isZoomed = False,
       previousMouse = (0, 0), clickStart = (0, 0), offset = (0, 0), targetOffset = (0, 0),
       offsetVelocity = (0, 0), mousePos = (-1, -1), targetMousePos = (-1, -1),
       zoom = 1, targetZoom = 1, distortion = 1, targetDistortion = 1, zoomProgress = 0,
       lastOffset = (0, 0), lastZoom = 1, videoNonce = 0,
       hoveredCellId = Val (-999, -999), zoomedCellId = Null, zoomedProject = Null \<rparr>"

text \<open>\<open>onResize\<close> of \<open>useResizeObserver\<close>: the canvas size becomes the resolution.\<close>

definition onResize :: "real \<Rightarrow> real \<Rightarrow> ThreeContext \<Rightarrow> ThreeContext" where
  "onResize w h c =
     (case plane c of
        None \<Rightarrow> c
      | Some u \<Rightarrow> c\<lparr>plane := Some (u\<lparr>uResolution := (w, h)\<rparr>)\<rparr>)"

text \<open>The second effect of \<open>useUniforms\<close>: the props \<open>cellSize\<close> and \<open>distortionStrength\<close>.\<close>

definition useUniforms :: "real \<Rightarrow> real \<Rightarrow> ThreeContext \<Rightarrow> ThreeContext" where
  "useUniforms cellSize distortionStrength c =
     (case plane c of
        None \<Rightarrow> c
      | Some u \<Rightarrow>
          c\<lparr>plane := Some (u\<lparr>uCellSize := cellSize, uDistortionStrength := distortionStrength\<rparr>)\<rparr>)"

text \<open>The effect of \<open>useVideoManager\<close> that creates the video element.\<close>

definition createVideo :: "ThreeContext \<Rightarrow> ThreeContext" where
  "createVideo c =
     (case plane c of
        None \<Rightarrow> c
      | Some u \<Rightarrow> c\<lparr>videoRef := Some \<lparr>src = [], paused = True\<rparr>\<rparr>)"

section \<open>screenToWorld (hookUtils.ts)\<close>

text \<open>
  With no plane the function returns a fresh zero vector. Otherwise: pixel to normalised
  device coordinates with the vertical axis flipped, the distortion factor, then aspect
  ratio, zoom and offset.
\<close>

definition screenToWorld :: "vec2 \<Rightarrow> ThreeContext \<Rightarrow> vec2" where
  "screenToWorld screenPos c =
     (case plane c of
        None \<Rightarrow> (0, 0)
      | Some u \<Rightarrow>
          let res = uResolution u;
              ndc = ((fst screenPos / fst res) * 2 - 1, - (snd screenPos / snd res) * 2 + 1);
              distorted = multiplyScalar ndc
                            (1 - distortion c * 0.08 * vlength ndc * vlength ndc);
              aspect = (fst res / snd res, 1)
          in vadd (multiplyScalar (vmultiply distorted aspect) (zoom c)) (offset c))"

text \<open>
  The cell under a world position, as \<open>handleInteraction\<close> and \<open>animate\<close> compute it:
  \<open>new THREE.Vector2(Math.floor(worldCoord.x / cellSize), Math.floor(worldCoord.y / cellSize))\<close>.
\<close>

definition cellOf :: "vec2 \<Rightarrow> real \<Rightarrow> vec2" where
  "cellOf worldCoord currentCellSize =
     (of_int \<lfloor>fst worldCoord / currentCellSize\<rfloor>, of_int \<lfloor>snd worldCoord / currentCellSize\<rfloor>)"

section \<open>setVideoState (useVideoManager.ts)\<close>

text \<open>
  The function is asynchronous. A call runs up to its first \<open>await\<close>; what remains is a
  pending request that resumes later, after \<open>await videoRef.load()\<close> and after
  \<open>await videoRef.play()\<close>. The request carries the local variables of the call.
\<close>

datatype await_point = AwaitLoad | AwaitPlay

record video_request =
  currentNonce :: nat
  cellId :: "vec2 js"
  newSrc :: string
  awaiting :: await_point

text \<open>
  Lines 71 and 72: the hovered cell is copied into the uniform, \<open>play()\<close> is called (the
  element is no longer paused) and the call waits for the promise of \<open>play()\<close>. Copying a
  null cell id throws inside the \<open>try\<close> block, which ends the call.
\<close>

definition setVideoState_afterLoad ::
    "video_request \<Rightarrow> ThreeContext \<Rightarrow> ThreeContext \<times> video_request option" where
  "setVideoState_afterLoad r c =
     (case (videoRef c, plane c, cellId r) of
        (Some v, Some u, Val cid) \<Rightarrow>
          (c\<lparr>plane := Some (u\<lparr>uHoveredCellId := cid\<rparr>), videoRef := Some (v\<lparr>paused := False\<rparr>)\<rparr>,
           Some (r\<lparr>awaiting := AwaitPlay\<rparr>))
      | _ \<Rightarrow> (c, None))"

text \<open>Lines 75 to 77, once \<open>play()\<close> has resolved: the final check of the nonce.\<close>

definition setVideoState_afterPlay :: "video_request \<Rightarrow> ThreeContext \<Rightarrow> ThreeContext" where
  "setVideoState_afterPlay r c =
     (if currentNonce r = videoNonce c
      then (case plane c of
              None \<Rightarrow> c
            | Some u \<Rightarrow> c\<lparr>plane := Some (u\<lparr>uIsVideoActive := True\<rparr>)\<rparr>)
      else c)"

text \<open>The \<open>catch\<close> block, when \<open>play()\<close> has rejected: a warning at most.\<close>

definition setVideoState_catch :: "video_request \<Rightarrow> ThreeContext \<Rightarrow> ThreeContext" where
  "setVideoState_catch r c = c"

text \<open>\<open>project?.video\<close>, and the test \<open>!newSrc\<close>: a missing and an empty source are falsy.\<close>

definition videoOf :: "Project js \<Rightarrow> string option" where
  "videoOf project = (case project of Val p \<Rightarrow> video p | _ \<Rightarrow> None)"

text \<open>The call itself, up to its first \<open>await\<close> or its return.\<close>

definition setVideoState ::
    "Project list js \<Rightarrow> vec2 js \<Rightarrow> ThreeContext \<Rightarrow> ThreeContext \<times> video_request option" where
  "setVideoState projects cid c =
     (let c1 = c\<lparr>videoNonce := videoNonce c + 1\<rparr>;
          nonce = videoNonce c1
      in case (videoRef c1, plane c1) of
           (Some v, Some u) \<Rightarrow>
             let project = getProjectByCellId cid projects;
                 u1 = u\<lparr>uIsVideoActive := False\<rparr>;
                 v1 = (if \<not> paused v then v\<lparr>paused := True\<rparr> else v);
                 c2 = c1\<lparr>plane := Some u1, videoRef := Some v1\<rparr>
             in (case videoOf project of
                   None \<Rightarrow> (c2, None)
                 | Some s \<Rightarrow>
                     if s = [] then (c2, None)
                     else if nonce \<noteq> videoNonce c2 then (c2, None)
                     else
                       let r = \<lparr>currentNonce = nonce, cellId = cid, newSrc = s,
                                awaiting = AwaitLoad\<rparr>
                       in if src v1 \<noteq> s
                          then (c2\<lparr>videoRef := Some (v1\<lparr>src := s\<rparr>)\<rparr>, Some r)
                          else setVideoState_afterLoad r c2)
         | _ \<Rightarrow> (c1, None))"

section \<open>useInteraction.ts\<close>

text \<open>
  \<open>navigateToCell\<close>. The promise of \<open>setVideoState\<close> is not awaited: only the part of
  the call that runs at once acts here.
\<close>

definition navigateToCell ::
    "Project list js \<Rightarrow> vec2 \<Rightarrow> bool \<Rightarrow> ThreeContext \<Rightarrow> ThreeContext" where
  "navigateToCell projects cid isInitialZoom c =
     (case plane c of
        None \<Rightarrow> c
      | Some _ \<Rightarrow>
          let project = getProjectByCellId (Val cid) projects;
              c1 = c\<lparr>zoomedProject := project\<rparr>;
              c2 = fst (setVideoState projects (Val cid) c1);
              c3 = (if isInitialZoom
                    then c2\<lparr>lastOffset := targetOffset c2, lastZoom := targetZoom c2,
                            targetZoom := zoomedInLevel, targetDistortion := 0,
                            isZoomed := True\<rparr>
                    else c2);
              currentCellSize = (case plane c3 of Some u \<Rightarrow> uCellSize u | None \<Rightarrow> 0)
          in c3\<lparr>targetOffset := multiplyScalar (addScalar cid 0.5) currentCellSize,
                zoomedCellId := Val cid\<rparr>)"

definition unzoom :: "Project list js \<Rightarrow> ThreeContext \<Rightarrow> ThreeContext" where
  "unzoom projects c =
     (let c1 = c\<lparr>targetOffset := lastOffset c, targetZoom := lastZoom c,
                 targetDistortion := 1, isZoomed := False, zoomedCellId := Null\<rparr>;
          c2 = fst (setVideoState projects Null c1)
      in c2\<lparr>zoomedProject := Null\<rparr>)"

text \<open>The two tests of \<open>handleInteraction\<close> on the length of the gesture.\<close>

definition isTap :: "vec2 \<Rightarrow> bool" where
  "isTap delta = (vlength delta < tapThreshold)"

definition isSwipe :: "vec2 \<Rightarrow> bool" where
  "isSwipe delta = (vlength delta > swipeThreshold)"

datatype js_error = TypeError

text \<open>
  \<open>handleInteraction\<close>. Reading a null \<open>zoomedCellId\<close> while zoomed (\<open>equals\<close>,
  \<open>clone\<close>) throws a TypeError.
\<close>

definition handleInteraction ::
    "Project list js \<Rightarrow> vec2 \<Rightarrow> vec2 \<Rightarrow> ThreeContext \<Rightarrow> js_error + ThreeContext" where
  "handleInteraction projects clickPos delta c =
     (case plane c of
        None \<Rightarrow> Inr c
      | Some u \<Rightarrow>
          let worldCoord = screenToWorld clickPos c;
              currentCellSize = uCellSize u;
              tappedCellId = cellOf worldCoord currentCellSize
          in if isZoomed c then
               (if isTap delta then
                  (case zoomedCellId c of
                     Val z \<Rightarrow>
                       if tappedCellId = z then Inr (unzoom projects c)
                       else Inr (navigateToCell projects tappedCellId False c)
                   | _ \<Rightarrow> Inl TypeError)
                else if isSwipe delta then
                  (case zoomedCellId c of
                     Val z \<Rightarrow>
                       let nextCell = (if \<bar>fst delta\<bar> > \<bar>snd delta\<bar>
                                       then (fst z - sgn (fst delta), snd z)
                                       else (fst z, snd z + sgn (snd delta)))
                       in Inr (navigateToCell projects nextCell False c)
                   | _ \<Rightarrow> Inl TypeError)
                else Inr c)
             else if isTap delta then Inr (navigateToCell projects tappedCellId True c)
             else Inr c)"

section \<open>useAnimationLoop.ts\<close>

text \<open>Lines 36 to 38: the spring that moves the camera offset.\<close>

definition springStep :: "ThreeContext \<Rightarrow> ThreeContext" where
  "springStep c =
     (let force = multiplyScalar (vsub (targetOffset c) (offset c)) springStiffness;
          velocity = multiplyScalar (vadd (offsetVelocity c) force) damping
      in c\<lparr>offsetVelocity := velocity, offset := vadd (offset c) velocity\<rparr>)"

text \<open>Lines 41 to 44: the values that move a tenth of the way to their targets.\<close>

definition lerpStep :: "ThreeContext \<Rightarrow> ThreeContext" where
  "lerpStep c =
     c\<lparr>mousePos := vlerp (mousePos c) (targetMousePos c) lerpFactor,
       zoom := zoom c + (targetZoom c - zoom c) * lerpFactor,
       distortion := distortion c + (targetDistortion c - distortion c) * lerpFactor,
       zoomProgress := zoomProgress c + ((if isZoomed c then 1 else 0) - zoomProgress c) * lerpFactor\<rparr>"

text \<open>Lines 49 to 59: the hovered cell, when not zoomed.\<close>

definition hoverStep :: "Project list js \<Rightarrow> ThreeContext \<Rightarrow> ThreeContext" where
  "hoverStep projects c =
     (case plane c of
        None \<Rightarrow> c
      | Some u \<Rightarrow>
          if \<not> isZoomed c then
            let worldCoord = screenToWorld (targetMousePos c) c;
                currentCellSize = uCellSize u;
                currentCellId = cellOf worldCoord currentCellSize
            in if (case hoveredCellId c of Val h \<Rightarrow> currentCellId \<noteq> h | _ \<Rightarrow> True)
               then fst (setVideoState projects (Val currentCellId)
                           (c\<lparr>hoveredCellId := Val currentCellId\<rparr>))
               else c
          else c)"

text \<open>Lines 62 to 69: panning while the pointer drags.\<close>

definition dragStep :: "ThreeContext \<Rightarrow> ThreeContext" where
  "dragStep c =
     (case plane c of
        None \<Rightarrow> c
      | Some u \<Rightarrow>
          if isDragging c \<and> \<not> isZoomed c \<and> snd (uResolution u) > 0 then
            let delta = vsub (targetMousePos c) (previousMouse c);
                moveSpeed = 2 / snd (uResolution u);
                aspect = fst (uResolution u) / snd (uResolution u)
            in c\<lparr>targetOffset :=
                    (fst (targetOffset c) - fst delta * moveSpeed * zoom c * aspect,
                     snd (targetOffset c) + snd delta * moveSpeed * zoom c),
                  previousMouse := targetMousePos c\<rparr>
          else c)"

text \<open>Lines 74 to 79: the four uniforms written on every frame.\<close>

definition pushUniforms :: "ThreeContext \<Rightarrow> ThreeContext" where
  "pushUniforms c =
     (case plane c of
        None \<Rightarrow> c
      | Some u \<Rightarrow>
          c\<lparr>plane := Some (u\<lparr>uZoom := zoom c, uDistortionStrength := distortion c,
                               uZoomProgress := zoomProgress c, uTime := uTime u + 0.016\<rparr>)\<rparr>)"

text \<open>
  One frame of the loop. The loop starts only once the scene is set up, that is with a
  plane; with no plane no frame runs.
\<close>

definition animate :: "Project list js \<Rightarrow> ThreeContext \<Rightarrow> ThreeContext" where
  "animate projects c =
     (case plane c of
        None \<Rightarrow> c
      | Some _ \<Rightarrow> pushUniforms (dragStep (hoverStep projects (lerpStep (springStep c)))))"

section \<open>The pending calls of setVideoState\<close>

text \<open>
  JavaScript runs one piece of code at a time: a call of \<open>setVideoState\<close> up to its
  first \<open>await\<close>, or the resumption of one pending call. An event names which; a pending
  call is named by its nonce. An event whose call is not pending at that point does
  nothing.
\<close>

datatype event =
    Call "vec2 js"
  | LoadDone nat
  | PlayResolved nat
  | PlayRejected nat

record system =
  ctx :: ThreeContext
  pending :: "video_request list"

definition waiting :: "nat \<Rightarrow> await_point \<Rightarrow> video_request \<Rightarrow> bool" where
  "waiting n p r = (currentNonce r = n \<and> awaiting r = p)"

definition resume :: "video_request option \<Rightarrow> video_request list" where
  "resume r = (case r of None \<Rightarrow> [] | Some r' \<Rightarrow> [r'])"

fun exec :: "Project list js \<Rightarrow> event \<Rightarrow> system \<Rightarrow> system" where
  "exec projects (Call cid) s =
     (let (c', r) = setVideoState projects cid (ctx s)
      in \<lparr>ctx = c', pending = pending s @ resume r\<rparr>)"
| "exec projects (LoadDone n) s =
     (case find (waiting n AwaitLoad) (pending s) of
        None \<Rightarrow> s
      | Some r \<Rightarrow>
          let (c', r') = setVideoState_afterLoad r (ctx s)
          in \<lparr>ctx = c', pending = remove1 r (pending s) @ resume r'\<rparr>)"
| "exec projects (PlayResolved n) s =
     (case find (waiting n AwaitPlay) (pending s) of
        None \<Rightarrow> s
      | Some r \<Rightarrow> \<lparr>ctx = setVideoState_afterPlay r (ctx s), pending = remove1 r (pending s)\<rparr>)"
| "exec projects (PlayRejected n) s =
     (case find (waiting n AwaitPlay) (pending s) of
        None \<Rightarrow> s
      | Some r \<Rightarrow> \<lparr>ctx = setVideoState_catch r (ctx s), pending = remove1 r (pending s)\<rparr>)"

definition run :: "Project list js \<Rightarrow> event list \<Rightarrow> system \<Rightarrow> system" where
  "run projects evs s = foldl (\<lambda>s e. exec projects e s) s evs"

definition isCall :: "event \<Rightarrow> bool" where
  "isCall e = (case e of Call _ \<Rightarrow> True | _ \<Rightarrow> False)"

text \<open>Whether the shader is told that a video is active.\<close>

definition videoActive :: "ThreeContext \<Rightarrow> bool" where
  "videoActive c = (case plane c of Some u \<Rightarrow> uIsVideoActive u | None \<Rightarrow> False)"

section \<open>The fragment shader\<close>

text \<open>
  GLSL leaves the result of a division by zero undefined, and \<open>mod(x, y)\<close> is
  \<open>x - y * floor(x / y)\<close>: an undefined result is \<open>None\<close>, and a shader function whose
  value depends on one is undefined as well. The functions below are those of the
  fragment shader up to \<open>getSceneColor\<close>; \<open>main\<close>, which averages six samples of it
  during a zoom, is not needed here.
\<close>

definition gdiv :: "real \<Rightarrow> real \<Rightarrow> real option" where
  "gdiv x y = (if y = 0 then None else Some (x / y))"

definition gmod :: "real \<Rightarrow> real \<Rightarrow> real option" where
  "gmod x y = (if y = 0 then None else Some (x - y * of_int \<lfloor>x / y\<rfloor>))"

definition clamp :: "real \<Rightarrow> real \<Rightarrow> real \<Rightarrow> real" where
  "clamp x lo hi = min (max x lo) hi"

text \<open>\<open>smoothstep\<close> by its formula, which the shader also uses with the edges reversed.\<close>

definition smoothstep :: "real \<Rightarrow> real \<Rightarrow> real \<Rightarrow> real option" where
  "smoothstep edge0 edge1 x =
     do { q \<leftarrow> gdiv (x - edge0) (edge1 - edge0);
          let t = clamp q 0 1;
          Some (t * t * (3 - 2 * t)) }"

definition mix :: "real \<Rightarrow> real \<Rightarrow> real \<Rightarrow> real" where
  "mix x y a = x * (1 - a) + y * a"

definition mix3 :: "vec3 \<Rightarrow> vec3 \<Rightarrow> real \<Rightarrow> vec3" where
  "mix3 x y a = (case (x, y) of
     ((x1, x2, x3), (y1, y2, y3)) \<Rightarrow> (mix x1 y1 a, mix x2 y2 a, mix x3 y3 a))"

definition rgb :: "vec4 \<Rightarrow> vec3" where
  "rgb v = (case v of (r, g, b, a) \<Rightarrow> (r, g, b))"

definition alpha :: "vec4 \<Rightarrow> real" where
  "alpha v = (case v of (r, g, b, a) \<Rightarrow> a)"

definition fract :: "real \<Rightarrow> real" where
  "fract x = x - of_int \<lfloor>x\<rfloor>"

definition LINE_WIDTH :: real where "LINE_WIDTH = 0.005"
definition IMAGE_SIZE :: real where "IMAGE_SIZE = 0.6"
definition TEXT_HEIGHT :: real where "TEXT_HEIGHT = 0.08"

text \<open>
  What the shader reads: the stored uniforms, and \<open>uOffset\<close> and \<open>uMousePos\<close>, which are
  the vectors \<open>offset\<close> and \<open>mousePos\<close> of the context themselves.
\<close>

record gl_uniforms = uniforms +
  uOffset :: vec2
  uMousePos :: vec2

definition glUniforms :: "ThreeContext \<Rightarrow> uniforms \<Rightarrow> gl_uniforms" where
  "glUniforms c u = uniforms.extend u (gl_uniforms.fields (offset c) (mousePos c))"

record textures =
  uImageAtlas :: "vec2 \<Rightarrow> vec4"
  uTextAtlas :: "vec2 \<Rightarrow> vec4"
  uActiveVideo :: "vec2 \<Rightarrow> vec4"

definition drawGrid :: "gl_uniforms \<Rightarrow> vec3 \<Rightarrow> vec2 \<Rightarrow> vec2 \<Rightarrow> vec2 \<Rightarrow> vec3 option" where
  "drawGrid g color cellUV mouseWorldCoord cid =
     do { m1 \<leftarrow> smoothstep 0 LINE_WIDTH (fst cellUV);
          m2 \<leftarrow> smoothstep 1 (1 - LINE_WIDTH) (fst cellUV);
          m3 \<leftarrow> smoothstep 0 LINE_WIDTH (snd cellUV);
          m4 \<leftarrow> smoothstep 1 (1 - LINE_WIDTH) (snd cellUV);
          let gridMask = m1 * m2 * m3 * m4;
          let distToMouseHover =
                vlength (vsub mouseWorldCoord (multiplyScalar (addScalar cid 0.5) (uCellSize g)));
          let hoverRadius = uCellSize g * 1.5;
          h \<leftarrow> smoothstep hoverRadius 0 distToMouseHover;
          let hoverIntensity = h ^ 2;
          let isHovered = (uHoverEnabled g \<and> hoverIntensity > 0 \<and> fst (uMousePos g) > 0);
          let color1 = (if isHovered
                        then mix3 color (rgb (uHoverColor g)) (hoverIntensity * alpha (uHoverColor g))
                        else color);
          Some (mix3 color1 (rgb (uBorderColor g)) ((1 - gridMask) * alpha (uBorderColor g))) }"

definition drawImage ::
    "gl_uniforms \<Rightarrow> textures \<Rightarrow> vec3 \<Rightarrow> vec2 \<Rightarrow> vec2 \<Rightarrow> real \<Rightarrow> real \<Rightarrow> vec3 option" where
  "drawImage g T color cellUV cid hoverIntensity effectIntensity =
     do { let hoverScale = 1 + hoverIntensity * 0.05;
          ix \<leftarrow> gdiv (fst cellUV - (1 - IMAGE_SIZE * hoverScale) * 0.5) (IMAGE_SIZE * hoverScale);
          iy \<leftarrow> gdiv (snd cellUV - (1 - IMAGE_SIZE * hoverScale) * 0.5) (IMAGE_SIZE * hoverScale);
          let imageUV = (ix, iy);
          a1 \<leftarrow> smoothstep 0 0.01 ix;
          a2 \<leftarrow> smoothstep 1 0.99 ix;
          a3 \<leftarrow> smoothstep 0 0.01 iy;
          a4 \<leftarrow> smoothstep 1 0.99 iy;
          let imageAlpha = a1 * a2 * a3 * a4;
          if imageAlpha > 0 then
            do { let isHoveredCell = (uIsVideoActive g \<and> fst cid = fst (uHoveredCellId g)
                                       \<and> snd cid = snd (uHoveredCellId g));
                 imageColor \<leftarrow>
                   (if isHoveredCell then Some (rgb (uActiveVideo T imageUV))
                    else
                      do { texIndex \<leftarrow> gmod (of_int \<lfloor>fst cid\<rfloor> + of_int \<lfloor>snd cid\<rfloor> * 3)
                                             (uTextureCount g);
                           let atlasSize = of_int \<lceil>sqrt (uTextureCount g)\<rceil>;
                           col \<leftarrow> gmod texIndex atlasSize;
                           row \<leftarrow> gdiv texIndex atlasSize;
                           ax \<leftarrow> gdiv (col + ix) atlasSize;
                           ay \<leftarrow> gdiv (of_int \<lfloor>row\<rfloor> + iy) atlasSize;
                           let atlasUV = (ax, ay);
                           let caOffset = (if uOptimizeMobile g then 0 else effectIntensity * 0.01);
                           let r = fst (uImageAtlas T (vadd atlasUV (caOffset, 0)));
                           let gr = fst (snd (uImageAtlas T atlasUV));
                           let b = fst (snd (snd (uImageAtlas T (vsub atlasUV (caOffset, 0)))));
                           Some (r, gr, b) });
                 Some (mix3 color imageColor imageAlpha) }
          else Some color }"

definition drawText ::
    "gl_uniforms \<Rightarrow> textures \<Rightarrow> vec3 \<Rightarrow> vec2 \<Rightarrow> vec2 \<Rightarrow> real \<Rightarrow> vec3 option" where
  "drawText g T color cellUV cid hoverIntensity =
     (if fst cellUV > 0.05 \<and> fst cellUV < 0.95 \<and> snd cellUV > 0.05
          \<and> snd cellUV < 0.05 + TEXT_HEIGHT then
        do { let textUV = ((fst cellUV - 0.05) / 0.9, (snd cellUV - 0.05) / TEXT_HEIGHT);
             texIndex \<leftarrow> gmod (of_int \<lfloor>fst cid\<rfloor> + of_int \<lfloor>snd cid\<rfloor> * 3) (uTextureCount g);
             let atlasSize = of_int \<lceil>sqrt (uTextureCount g)\<rceil>;
             col \<leftarrow> gmod texIndex atlasSize;
             row \<leftarrow> gdiv texIndex atlasSize;
             ax \<leftarrow> gdiv (col + fst textUV) atlasSize;
             ay \<leftarrow> gdiv (of_int \<lfloor>row\<rfloor> + snd textUV) atlasSize;
             let textColor = uTextAtlas T (ax, ay);
             let finalTextColor = mix3 (rgb textColor) (1, 1, 1) (hoverIntensity * 0.5);
             Some (mix3 color finalTextColor (alpha textColor)) }
      else Some color)"

text \<open>
  Steps 1 to 4 of \<open>getSceneColor\<close>: the world coordinate of the fragment, the mouse in
  world coordinates, the ripple, and the cell. The result is the cell id, the position
  inside the cell, the mouse in world coordinates and the radius.
\<close>

definition sceneCell :: "gl_uniforms \<Rightarrow> vec2 \<Rightarrow> (vec2 \<times> vec2 \<times> vec2 \<times> real) option" where
  "sceneCell g uv =
     do { let screenUV = multiplyScalar (addScalar uv (- 0.5)) 2;
          let radius = vlength screenUV;
          let distortion' = 1 - uDistortionStrength g * 0.08 * radius * radius;
          let distortedUV = multiplyScalar screenUV distortion';
          ar \<leftarrow> gdiv (fst (uResolution g)) (snd (uResolution g));
          let aspectRatio = (ar, 1);
          let worldCoord0 =
                vadd (multiplyScalar (vmultiply distortedUV aspectRatio) (uZoom g)) (uOffset g);
          mx \<leftarrow> gdiv (fst (uMousePos g)) (fst (uResolution g));
          my \<leftarrow> gdiv (snd (uMousePos g)) (snd (uResolution g));
          let mouseScreenUV = (mx * 2 - 1, - (my * 2 - 1));
          let mouseWorldCoord =
                vadd (multiplyScalar (vmultiply mouseScreenUV aspectRatio) (uZoom g)) (uOffset g);
          worldCoord \<leftarrow>
            (if \<not> uOptimizeMobile g then
               do { let distToMouseRipple = vlength (vsub mouseWorldCoord worldCoord0);
                    rippleFalloff \<leftarrow> smoothstep (uCellSize g * 1.5) 0 distToMouseRipple;
                    let ripple = sin (distToMouseRipple * 12 - uTime g * 3) * rippleFalloff * 0.002;
                    Some (addScalar worldCoord0 ripple) }
             else Some worldCoord0);
          px \<leftarrow> gdiv (fst worldCoord) (uCellSize g);
          py \<leftarrow> gdiv (snd worldCoord) (uCellSize g);
          Some ((of_int \<lfloor>px\<rfloor>, of_int \<lfloor>py\<rfloor>), (fract px, fract py), mouseWorldCoord, radius) }"

definition getSceneColor :: "gl_uniforms \<Rightarrow> textures \<Rightarrow> vec2 \<Rightarrow> real \<Rightarrow> vec4 option" where
  "getSceneColor g T uv effectIntensity =
     do { (cid, cellUV, mouseWorldCoord, radius) \<leftarrow> sceneCell g uv;
          let distToMouseHover =
                vlength (vsub mouseWorldCoord (multiplyScalar (addScalar cid 0.5) (uCellSize g)));
          h \<leftarrow> smoothstep (uCellSize g * 1.5) 0 distToMouseHover;
          let hoverIntensity = h ^ 2;
          let color0 = rgb (uBackgroundColor g);
          color1 \<leftarrow> drawGrid g color0 cellUV mouseWorldCoord cid;
          color2 \<leftarrow> drawImage g T color1 cellUV cid hoverIntensity effectIntensity;
          color3 \<leftarrow> drawText g T color2 cellUV cid hoverIntensity;
          vig \<leftarrow> smoothstep 1.2 1.8 radius;
          Some (case color3 of (r, gr, b) \<Rightarrow>
                  (r * (1 - vig), gr * (1 - vig), b * (1 - vig), 1)) }"

text \<open>
  The fragment that covers a pixel of the canvas: the plane of size 2 by 2 fills the view
  of the orthographic camera, so \<open>vUv\<close> runs from 0 to 1 across the canvas, upwards, while
  pixel coordinates run downwards. This is the mapping the shader itself applies to the
  pixel position \<open>uMousePos\<close> in step 2.
\<close>

definition fragmentUv :: "vec2 \<Rightarrow> vec2 \<Rightarrow> vec2" where
  "fragmentUv res pixel = (fst pixel / fst res, 1 - snd pixel / snd res)"

section \<open>Well-formed pending calls and a sample run\<close>

text \<open>
  A pending call took its nonce from the counter, which only grows: no pending call has a
  nonce above the counter.
\<close>

definition wellFormed :: "system \<Rightarrow> bool" where
  "wellFormed s = (\<forall>r \<in> set (pending s). currentNonce r \<le> videoNonce (ctx s))"

text \<open>Two projects with videos and the context right after setup, for the examples.\<close>

definition sampleProjects :: "Project list js" where
  "sampleProjects =
     Val [\<lparr>title = ''a'', image_url = ''a.jpg'', year = 2024, href = ''a'', video = Some ''a.mp4''\<rparr>,
          \<lparr>title = ''b'', image_url = ''b.jpg'', year = 2023, href = ''b'', video = Some ''b.mp4''\<rparr>]"

definition sampleStart :: system where
  "sampleStart = \<lparr>ctx = createVideo (initialContext False), pending = []\<rparr>"

text \<open>
  The cell that the shader is told to show the video in, and the statement that this cell
  is \<open>cid\<close> from the moment the call with nonce \<open>n\<close> waits for \<open>play()\<close>.
\<close>

definition hoveredUniform :: "system \<Rightarrow> vec2 js" where
  "hoveredUniform s = (case plane (ctx s) of Some u \<Rightarrow> Val (uHoveredCellId u) | None \<Rightarrow> Null)"

definition shownInCell :: "nat \<Rightarrow> vec2 js \<Rightarrow> system \<Rightarrow> bool" where
  "shownInCell n cid s =
     ((videoActive (ctx s) \<or> (\<exists>r \<in> set (pending s). currentNonce r = n \<and> awaiting r = AwaitPlay))
        \<longrightarrow> hoveredUniform s = cid)"

section \<open>The uniforms while the textures load\<close>

text \<open>
  The texture count is 0 from setup until \<open>useTextureManager\<close> has built the atlases, and
  stays 0 with an empty project list. The context here is the initial one on a canvas of
  600 by 600 pixels, with the camera over the centre of cell \<open>(0, 0)\<close> and the pointer at
  the centre of the canvas.
\<close>

definition loadingContext :: ThreeContext where
  "loadingContext =
     (onResize 600 600 (initialContext False))\<lparr>offset := (0.375, 0.375), mousePos := (300, 300)\<rparr>"

definition loadingUniforms :: gl_uniforms where
  "loadingUniforms =
     glUniforms loadingContext ((initialUniforms False)\<lparr>uResolution := (600, 600)\<rparr>)"

section \<open>The distance of the camera from its target\<close>

text \<open>
  What remains of the way to the target offset, its length, and a weighted sum of squares
  of that remainder and of the velocity, which every step of the spring scales by 3/4.
\<close>

definition springError :: "ThreeContext \<Rightarrow> vec2" where
  "springError c = vsub (targetOffset c) (offset c)"

definition springDistance :: "ThreeContext \<Rightarrow> real" where
  "springDistance c = vlength (springError c)"

definition springEnergy :: "ThreeContext \<Rightarrow> real" where
  "springEnergy c =
     (let e = springError c; v = offsetVelocity c
      in 3 * (fst e * fst e + snd e * snd e)
         - 17 * (fst e * fst v + snd e * snd v)
         + 60 * (fst v * fst v + snd v * snd v))"

section \<open>The resting distortion\<close>

text \<open>
  The target distortion is only ever written by \<open>navigateToCell\<close> (0 on zooming in) and by
  \<open>unzoom\<close> (1), and starts at 1: it is 0 while zoomed and 1 otherwise.
\<close>

definition ambientInv :: "ThreeContext \<Rightarrow> bool" where
  "ambientInv c = (targetDistortion c = (if isZoomed c then 0 else 1))"

section \<open>Properties of the project lookup\<close>

lemma js_rem_wrap:
  assumes "0 < n"
  shows "js_rem (js_rem a n + n) n = a mod n"
proof -
  have bounds: "- n < js_rem a n" "js_rem a n < n"
    using assms smod_int_range [of n a] by (auto simp: js_rem_def)
  then have nonneg: "0 \<le> js_rem a n + n" by simp
  have "js_rem (js_rem a n + n) n = (js_rem a n + n) mod n"
    unfolding js_rem_def [of "js_rem a n + n"]
    using nonneg assms by (intro smod_mod_positive) simp_all
  also have "\<dots> = js_rem a n mod n" by simp
  also have "\<dots> = (a mod n - n * of_bool (sgn a \<noteq> sgn n \<and> \<not> n dvd a)) mod n"
    unfolding js_rem_def by (simp only: signed_modulo_int_eq_modulo_int)
  also have "\<dots> = a mod n"
    by (cases "sgn a \<noteq> sgn n \<and> \<not> n dvd a") (simp_all add: mod_diff_right_eq [symmetric])
  finally show ?thesis .
qed

lemma length_ge_1_nonempty: "1 \<le> length xs \<Longrightarrow> xs \<noteq> []"
  by (cases xs) simp_all

text \<open>
  C2: for whole numbers \<open>x\<close>, \<open>y\<close> and a list of \<open>N \<ge> 1\<close> projects the lookup returns the
  project at index \<open>((x + y*3) mod N + N) mod N\<close>, the modulo being the Euclidean one, and
  that index lies inside the list; with nine projects the cell \<open>(-1, 0)\<close> has flat index
  \<open>-1\<close> and yields the project at index 8, the last one.
\<close>

theorem getProjectByCellId_wrap:
  fixes x y :: int and projects :: "'p list"
  assumes "1 \<le> length projects"
  defines "N \<equiv> int (length projects)"
  shows "getProjectByCellId (Val (of_int x, of_int y)) (Val projects)
           = Val (projects ! nat (((x + y * 3) mod N + N) mod N))
       \<and> 0 \<le> ((x + y * 3) mod N + N) mod N \<and> ((x + y * 3) mod N + N) mod N < N
       \<and> (length projects = 9 \<longrightarrow> flatIndex (-1, 0) = -1
           \<and> getProjectByCellId (Val (-1, 0)) (Val projects) = Val (projects ! 8)
           \<and> projects ! 8 = last projects)"
proof -
  have ne: "projects \<noteq> []" using assms(1) by (rule length_ge_1_nonempty)
  have pos: "0 < N" using ne by (simp add: N_def)
  have idx: "projectIndex (of_int x, of_int y) (length projects) = (x + y * 3) mod N"
    using pos by (simp add: projectIndex_def flatIndex_def js_rem_wrap N_def)
  have rng: "0 \<le> (x + y * 3) mod N" "(x + y * 3) mod N < N"
    using pos by simp_all
  have general: "getProjectByCellId (Val (of_int x, of_int y)) (Val projects)
           = Val (projects ! nat (((x + y * 3) mod N + N) mod N))"
    using ne idx rng by (simp add: js_index_def N_def)
  have range: "0 \<le> ((x + y * 3) mod N + N) mod N \<and> ((x + y * 3) mod N + N) mod N < N"
    using pos by simp
  have example: "flatIndex (-1, 0) = -1
           \<and> getProjectByCellId (Val (-1, 0)) (Val projects) = Val (projects ! 8)
           \<and> projects ! 8 = last projects" if nine: "length projects = 9"
  proof -
    have fl: "\<lfloor>- 1 :: real\<rfloor> = - 1"
      using floor_of_int [where ?'a = real, of "- 1"] by simp
    have "projectIndex (-1, 0) 9 = 8"
      using js_rem_wrap [of 9 "-1"] by (simp add: projectIndex_def flatIndex_def fl)
    then show ?thesis
      using nine ne by (simp add: js_index_def flatIndex_def last_conv_nth fl)
  qed
  from general range example show ?thesis by blast
qed

theorem getProjectByCellId_wrap_witness:
  "getProjectByCellId (Val (-1, 0)) (Val [10, 11, 12, 13, 14, 15, 16, 17, 18 :: nat]) = Val 18
   \<and> getProjectByCellId (Val (of_int 4, of_int (-2))) (Val [10, 11, 12 :: nat]) = Val 11"
  using getProjectByCellId_wrap [of "[10, 11, 12, 13, 14, 15, 16, 17, 18 :: nat]" 0 0]
    getProjectByCellId_wrap [of "[10, 11, 12 :: nat]" 4 "-2"]
  by simp

text \<open>
  C8: with a project list that is \<open>null\<close>, \<open>undefined\<close> or empty the lookup returns
  \<open>null\<close> for every cell id, a \<open>null\<close> or \<open>undefined\<close> cell id included: the guard
  returns before any field is read, any remainder is taken or any slot is indexed. A
  \<open>null\<close> cell id gives \<open>null\<close> whatever the list is.
\<close>

theorem getProjectByCellId_fails_closed:
  "getProjectByCellId cid Null = Null
   \<and> getProjectByCellId cid Undefined = Null
   \<and> getProjectByCellId cid (Val []) = Null
   \<and> getProjectByCellId Null projects = Null
   \<and> getProjectByCellId Undefined projects = Null"
  by (cases cid) simp_all

section \<open>Screen to world, on the CPU and in the shader\<close>

lemma vlength_sq: "k * vlength v * vlength v = k * (fst v * fst v + snd v * snd v)"
proof -
  have "0 \<le> fst v * fst v + snd v * snd v" by (simp add: add_nonneg_nonneg)
  then have "vlength v * vlength v = fst v * fst v + snd v * snd v"
    by (simp add: vlength_def)
  then show ?thesis by (simp add: mult.assoc)
qed

text \<open>
  C3: with a plane whose resolution is \<open>(resX, resY)\<close>, neither zero, \<open>screenToWorld\<close>
  returns \<open>((ndc * factor) * (resX / resY, 1)) * zoom + offset\<close>, where
  \<open>ndc = ((px / resX) * 2 - 1, - ((py / resY) * 2 - 1))\<close> and
  \<open>factor = 1 - distortion * 0.08 * |ndc|\<^sup>2\<close>: normalised device coordinates with the
  vertical axis flipped, the distortion factor, then aspect ratio, zoom and offset.
\<close>

theorem screenToWorld_formula:
  fixes px py resX resY :: real and c :: ThreeContext
  assumes "plane c = Some u" and "uResolution u = (resX, resY)"
    and "resX \<noteq> 0" and "resY \<noteq> 0"
  defines "ndc \<equiv> ((px / resX) * 2 - 1, - ((py / resY) * 2 - 1))"
  defines "factor \<equiv> 1 - distortion c * 0.08 * (vlength ndc)\<^sup>2"
  shows "screenToWorld (px, py) c =
           vadd (multiplyScalar (vmultiply (multiplyScalar ndc factor) (resX / resY, 1)) (zoom c))
                (offset c)
         \<and> (vlength ndc)\<^sup>2 = (fst ndc)\<^sup>2 + (snd ndc)\<^sup>2
         \<and> screenToWorld (px, py) c =
             (fst ndc * factor * (resX / resY) * zoom c + fst (offset c),
              snd ndc * factor * zoom c + snd (offset c))"
proof -
  have sq: "(vlength ndc)\<^sup>2 = (fst ndc)\<^sup>2 + (snd ndc)\<^sup>2"
    by (simp add: vlength_def power2_eq_square add_nonneg_nonneg)
  have ndc_eq: "((px / resX) * 2 - 1, - (py / resY) * 2 + 1) = ndc"
    by (simp add: ndc_def)
  have fac: "1 - distortion c * 0.08 * vlength ndc * vlength ndc = factor"
    unfolding factor_def by (simp add: power2_eq_square mult.assoc)
  have "screenToWorld (px, py) c =
          vadd (multiplyScalar (vmultiply (multiplyScalar
                  ((px / resX) * 2 - 1, - (py / resY) * 2 + 1)
                  (1 - distortion c * 0.08 * vlength ((px / resX) * 2 - 1, - (py / resY) * 2 + 1)
                     * vlength ((px / resX) * 2 - 1, - (py / resY) * 2 + 1)))
                (resX / resY, 1)) (zoom c)) (offset c)"
    by (simp only: screenToWorld_def assms(1,2) option.case Let_def fst_conv snd_conv)
  then have main: "screenToWorld (px, py) c =
           vadd (multiplyScalar (vmultiply (multiplyScalar ndc factor) (resX / resY, 1)) (zoom c))
                (offset c)"
    by (simp only: ndc_eq fac)
  have comp: "vadd (multiplyScalar (vmultiply (multiplyScalar ndc factor) (resX / resY, 1)) (zoom c))
                (offset c) =
             (fst ndc * factor * (resX / resY) * zoom c + fst (offset c),
              snd ndc * factor * zoom c + snd (offset c))"
    by (simp add: vadd_def multiplyScalar_def vmultiply_def)
  from main sq comp show ?thesis by (simp only: simp_thms)
qed

lemma initial_plane:
  "plane (initialContext m) = Some (initialUniforms m)"
  by (simp add: initialContext_def)

lemma onResize_initial:
  "onResize w h (initialContext m) = (initialContext m)\<lparr>plane := Some ((initialUniforms m)\<lparr>uResolution := (w, h)\<rparr>)\<rparr>"
  by (simp add: onResize_def initial_plane)

theorem screenToWorld_formula_witness:
  "screenToWorld (700, 150) (onResize 800 600 (initialContext False))
     = (187 / 200, 187 / 400)"
proof -
  let ?u = "(initialUniforms False)\<lparr>uResolution := (800, 600)\<rparr>"
  let ?c = "onResize 800 600 (initialContext False)"
  have p: "plane ?c = Some ?u" by (simp add: onResize_initial)
  have r: "uResolution ?u = (800, 600)" by simp
  have f: "distortion ?c = 1" "zoom ?c = 1" "offset ?c = (0, 0)"
    by (simp_all add: onResize_initial) (simp_all add: initialContext_def)
  have n: "((700 / 800 :: real) * 2 - 1, - ((150 / 600 :: real) * 2 - 1)) = (3 / 4, 1 / 2)" by simp
  have sq: "(vlength (3 / 4, 1 / 2))\<^sup>2 = 13 / 16"
    by (simp add: vlength_def power2_eq_square)
  show ?thesis
    using screenToWorld_formula [OF p r, of 700 150] unfolding n f
    by (simp add: sq vadd_def multiplyScalar_def vmultiply_def)
qed

lemma glUniforms_sel:
  "uResolution (glUniforms c u) = uResolution u"
  "uZoom (glUniforms c u) = uZoom u"
  "uDistortionStrength (glUniforms c u) = uDistortionStrength u"
  "uCellSize (glUniforms c u) = uCellSize u"
  "uTextureCount (glUniforms c u) = uTextureCount u"
  "uOptimizeMobile (glUniforms c u) = uOptimizeMobile u"
  "uIsVideoActive (glUniforms c u) = uIsVideoActive u"
  "uHoveredCellId (glUniforms c u) = uHoveredCellId u"
  "uTime (glUniforms c u) = uTime u"
  "uOffset (glUniforms c u) = offset c"
  "uMousePos (glUniforms c u) = mousePos c"
  by (simp_all add: glUniforms_def uniforms.defs gl_uniforms.defs)

lemma fragment_screenUV:
  "multiplyScalar (addScalar (fragmentUv (rx, ry) (px, py)) (- 0.5)) 2
     = ((px / rx) * 2 - 1, - (py / ry) * 2 + 1)"
  by (simp add: multiplyScalar_def addScalar_def fragmentUv_def algebra_simps)

lemma sceneCell_no_ripple:
  assumes "uOptimizeMobile g" and "snd (uResolution g) \<noteq> 0" and "fst (uResolution g) \<noteq> 0"
    and "uCellSize g \<noteq> 0"
  shows "map_option fst (sceneCell g uv) =
     Some (cellOf
       (let screenUV = multiplyScalar (addScalar uv (- 0.5)) 2 in
        vadd (multiplyScalar (vmultiply
                (multiplyScalar screenUV
                   (1 - uDistortionStrength g * 0.08 * vlength screenUV * vlength screenUV))
                (fst (uResolution g) / snd (uResolution g), 1)) (uZoom g)) (uOffset g))
       (uCellSize g))"
  using assms by (simp add: sceneCell_def gdiv_def Let_def cellOf_def)

lemma sceneCell_matches_cpu:
  assumes "plane c = Some u" and "fst (uResolution u) \<noteq> 0" and "snd (uResolution u) \<noteq> 0"
    and "uCellSize u \<noteq> 0" and "uOptimizeMobile u"
    and "uDistortionStrength u = distortion c" and "uZoom u = zoom c"
  shows "map_option fst (sceneCell (glUniforms c u) (fragmentUv (uResolution u) pixel))
           = Some (cellOf (screenToWorld pixel c) (uCellSize u))"
proof -
  obtain rx ry where res: "uResolution u = (rx, ry)" by (cases "uResolution u")
  obtain px py where pix: "pixel = (px, py)" by (cases pixel)
  have "map_option fst (sceneCell (glUniforms c u) (fragmentUv (uResolution u) pixel)) =
     Some (cellOf
       (let screenUV = multiplyScalar (addScalar (fragmentUv (uResolution u) pixel) (- 0.5)) 2 in
        vadd (multiplyScalar (vmultiply
                (multiplyScalar screenUV
                   (1 - distortion c * 0.08 * vlength screenUV * vlength screenUV))
                (fst (uResolution u) / snd (uResolution u), 1)) (zoom c)) (offset c))
       (uCellSize u))"
    using sceneCell_no_ripple [of "glUniforms c u" "fragmentUv (uResolution u) pixel"] assms
    by (simp only: glUniforms_sel simp_thms)
  also have "\<dots> = Some (cellOf (screenToWorld pixel c) (uCellSize u))"
    by (simp only: res pix fragment_screenUV screenToWorld_def assms(1) option.case Let_def
          fst_conv snd_conv)
  finally show ?thesis .
qed

text \<open>
  C1: with the ripple disabled, a distortion of 0 on both sides and the same resolution,
  offset, zoom and cell size (none of the divisors zero), the cell that the CPU obtains
  from \<open>screenToWorld\<close> by dividing by the cell size and flooring is the cell id that
  \<open>getSceneColor\<close> computes for the fragment of that pixel.
\<close>

theorem cpu_gpu_same_cell:
  fixes c :: ThreeContext and u :: uniforms and pixel :: vec2
  assumes "plane c = Some u"
    and "fst (uResolution u) \<noteq> 0" and "snd (uResolution u) \<noteq> 0" and "uCellSize u \<noteq> 0"
    and "uOptimizeMobile u"
    and "distortion c = 0" and "uDistortionStrength u = 0" and "uZoom u = zoom c"
  shows "map_option fst (sceneCell (glUniforms c u) (fragmentUv (uResolution u) pixel))
           = Some (cellOf (screenToWorld pixel c) (uCellSize u))"
  using assms by (intro sceneCell_matches_cpu) simp_all

theorem cpu_gpu_same_cell_witness:
  "map_option fst
     (sceneCell
        (glUniforms ((onResize 800 600 (initialContext False))\<lparr>distortion := 0\<rparr>)
           ((initialUniforms False)\<lparr>uResolution := (800, 600), uDistortionStrength := 0\<rparr>))
        (fragmentUv (800, 600) (700, 150)))
     = Some (1, 0)"
proof -
  let ?u = "(initialUniforms False)\<lparr>uResolution := (800, 600), uDistortionStrength := 0\<rparr>"
  let ?c = "(onResize 800 600 (initialContext False))\<lparr>distortion := 0, plane := Some ?u\<rparr>"
  have "map_option fst (sceneCell (glUniforms ?c ?u) (fragmentUv (uResolution ?u) (700, 150)))
           = Some (cellOf (screenToWorld (700, 150) ?c) (uCellSize ?u))"
    by (rule cpu_gpu_same_cell) (simp_all add: initialUniforms_def initialContext_def onResize_def)
  moreover have "cellOf (screenToWorld (700, 150) ?c) (uCellSize ?u) = (1, 0)"
    by (simp add: screenToWorld_def cellOf_def initialUniforms_def initialContext_def onResize_def
          Let_def vadd_def multiplyScalar_def vmultiply_def)
  moreover have "glUniforms ?c ?u = glUniforms ((onResize 800 600 (initialContext False))\<lparr>distortion := 0\<rparr>) ?u"
    by (simp add: glUniforms_def)
  ultimately show ?thesis by (simp add: initialUniforms_def)
qed

section \<open>Zooming in and out\<close>

lemma setVideoState_frame:
  "(fst (setVideoState projects cid c))\<lparr>videoNonce := n, plane := p, videoRef := v\<rparr>
     = c\<lparr>videoNonce := n, plane := p, videoRef := v\<rparr>"
  by (simp add: setVideoState_def setVideoState_afterLoad_def Let_def split: option.splits js.splits)

lemma setVideoState_plane_frame:
  "map_option (\<lambda>u. u\<lparr>uIsVideoActive := a, uHoveredCellId := h\<rparr>) (plane (fst (setVideoState projects cid c)))
     = map_option (\<lambda>u. u\<lparr>uIsVideoActive := a, uHoveredCellId := h\<rparr>) (plane c)"
  by (simp add: setVideoState_def setVideoState_afterLoad_def Let_def split: option.splits js.splits)

lemma frame_fields:
  assumes "x\<lparr>videoNonce := n, plane := p, videoRef := v\<rparr> = y\<lparr>videoNonce := n, plane := p, videoRef := v\<rparr>"
  shows "targetOffset x = targetOffset y" and "targetZoom x = targetZoom y"
    and "lastOffset x = lastOffset y" and "lastZoom x = lastZoom y"
    and "targetDistortion x = targetDistortion y" and "isZoomed x = isZoomed y"
    and "zoomedCellId x = zoomedCellId y" and "distortion x = distortion y"
    and "zoom x = zoom y" and "offset x = offset y" and "offsetVelocity x = offsetVelocity y"
    and "zoomProgress x = zoomProgress y" and "isDragging x = isDragging y"
    and "targetMousePos x = targetMousePos y" and "previousMouse x = previousMouse y"
    and "mousePos x = mousePos y" and "hoveredCellId x = hoveredCellId y"
    and "zoomedProject x = zoomedProject y" and "clickStart x = clickStart y"
proof -
  let ?f = "\<lambda>z. z\<lparr>videoNonce := n, plane := p, videoRef := v\<rparr>"
  have "targetOffset (?f x) = targetOffset (?f y)" using assms by simp
  then show "targetOffset x = targetOffset y" by simp
  have "targetZoom (?f x) = targetZoom (?f y)" using assms by simp
  then show "targetZoom x = targetZoom y" by simp
  have "lastOffset (?f x) = lastOffset (?f y)" using assms by simp
  then show "lastOffset x = lastOffset y" by simp
  have "lastZoom (?f x) = lastZoom (?f y)" using assms by simp
  then show "lastZoom x = lastZoom y" by simp
  have "targetDistortion (?f x) = targetDistortion (?f y)" using assms by simp
  then show "targetDistortion x = targetDistortion y" by simp
  have "isZoomed (?f x) = isZoomed (?f y)" using assms by simp
  then show "isZoomed x = isZoomed y" by simp
  have "zoomedCellId (?f x) = zoomedCellId (?f y)" using assms by simp
  then show "zoomedCellId x = zoomedCellId y" by simp
  have "distortion (?f x) = distortion (?f y)" using assms by simp
  then show "distortion x = distortion y" by simp
  have "zoom (?f x) = zoom (?f y)" using assms by simp
  then show "zoom x = zoom y" by simp
  have "offset (?f x) = offset (?f y)" using assms by simp
  then show "offset x = offset y" by simp
  have "offsetVelocity (?f x) = offsetVelocity (?f y)" using assms by simp
  then show "offsetVelocity x = offsetVelocity y" by simp
  have "zoomProgress (?f x) = zoomProgress (?f y)" using assms by simp
  then show "zoomProgress x = zoomProgress y" by simp
  have "isDragging (?f x) = isDragging (?f y)" using assms by simp
  then show "isDragging x = isDragging y" by simp
  have "targetMousePos (?f x) = targetMousePos (?f y)" using assms by simp
  then show "targetMousePos x = targetMousePos y" by simp
  have "previousMouse (?f x) = previousMouse (?f y)" using assms by simp
  then show "previousMouse x = previousMouse y" by simp
  have "mousePos (?f x) = mousePos (?f y)" using assms by simp
  then show "mousePos x = mousePos y" by simp
  have "hoveredCellId (?f x) = hoveredCellId (?f y)" using assms by simp
  then show "hoveredCellId x = hoveredCellId y" by simp
  have "zoomedProject (?f x) = zoomedProject (?f y)" using assms by simp
  then show "zoomedProject x = zoomedProject y" by simp
  have "clickStart (?f x) = clickStart (?f y)" using assms by simp
  then show "clickStart x = clickStart y" by simp
qed

lemmas setVideoState_fields = frame_fields [OF setVideoState_frame]

lemma setVideoState_plane_None:
  "plane (fst (setVideoState projects cid c)) = None \<longleftrightarrow> plane c = None"
  by (simp add: setVideoState_def setVideoState_afterLoad_def Let_def split: option.splits js.splits)

lemma setVideoState_uCellSize:
  "map_option uCellSize (plane (fst (setVideoState projects cid c))) = map_option uCellSize (plane c)"
proof -
  have "map_option uCellSize (map_option (\<lambda>u. u\<lparr>uIsVideoActive := a, uHoveredCellId := h\<rparr>) (plane (fst (setVideoState projects cid c))))
      = map_option uCellSize (map_option (\<lambda>u. u\<lparr>uIsVideoActive := a, uHoveredCellId := h\<rparr>) (plane c))" for a h
    by (simp only: setVideoState_plane_frame)
  then show ?thesis by (simp add: option.map_comp comp_def)
qed

lemma navigateToCell_initial:
  assumes "plane c = Some u"
  shows "lastOffset (navigateToCell projects cid True c) = targetOffset c"
    and "lastZoom (navigateToCell projects cid True c) = targetZoom c"
    and "targetZoom (navigateToCell projects cid True c) = zoomedInLevel"
    and "targetDistortion (navigateToCell projects cid True c) = 0"
    and "isZoomed (navigateToCell projects cid True c)"
    and "zoomedCellId (navigateToCell projects cid True c) = Val cid"
    and "targetOffset (navigateToCell projects cid True c) = multiplyScalar (addScalar cid 0.5) (uCellSize u)"
  using assms setVideoState_uCellSize [of projects "Val cid" "c\<lparr>zoomedProject := getProjectByCellId (Val cid) projects\<rparr>"]
  by (auto simp: navigateToCell_def Let_def setVideoState_fields split: option.splits)

lemma unzoom_fields:
  "targetOffset (unzoom projects c) = lastOffset c"
  "targetZoom (unzoom projects c) = lastZoom c"
  "targetDistortion (unzoom projects c) = 1"
  "isZoomed (unzoom projects c) = False"
  "zoomedCellId (unzoom projects c) = Null"
  "zoomedProject (unzoom projects c) = Null"
  by (simp_all add: unzoom_def Let_def setVideoState_fields)

text \<open>
  C4: with a plane, \<open>navigateToCell\<close> for a first zoom followed by \<open>unzoom\<close> gives
  back the target offset and the target zoom of before, exactly; \<open>unzoom\<close> sets the
  target distortion to 1, the resting value, which is the value of before whenever the
  context was at rest (not zoomed, target distortion at its resting value); the context
  is no longer zoomed and has no zoomed cell.
\<close>

theorem zoom_round_trip:
  fixes c :: ThreeContext and projects :: "Project list js" and cellA :: vec2
  assumes "plane c = Some u"
  defines "c' \<equiv> unzoom projects (navigateToCell projects cellA True c)"
  shows "targetOffset c' = targetOffset c \<and> targetZoom c' = targetZoom c
       \<and> targetDistortion c' = 1 \<and> \<not> isZoomed c' \<and> zoomedCellId c' = Null
       \<and> (ambientInv c \<and> \<not> isZoomed c \<longrightarrow> targetDistortion c' = targetDistortion c)"
  using navigateToCell_initial [OF assms(1), of projects cellA]
  by (simp add: c'_def unzoom_fields ambientInv_def)

theorem zoom_round_trip_witness:
  "ambientInv (initialContext False) \<and> \<not> isZoomed (initialContext False)
   \<and> targetDistortion (unzoom Null (navigateToCell Null (2, 3) True (initialContext False))) = 1
   \<and> targetOffset (unzoom Null (navigateToCell Null (2, 3) True (initialContext False))) = (0, 0)
   \<and> targetOffset (navigateToCell Null (2, 3) True (initialContext False)) = (1.875, 2.625)"
  using zoom_round_trip [of "initialContext False" "initialUniforms False" Null "(2, 3)"]
    navigateToCell_initial(7) [of "initialContext False" "initialUniforms False" Null "(2, 3)"]
  by (simp add: initial_plane ambientInv_def initialContext_def initialUniforms_def
        multiplyScalar_def addScalar_def)

section \<open>Taps and swipes\<close>

lemma vlength_345: "0 \<le> k \<Longrightarrow> vlength (3 * k, 4 * k) = 5 * k"
proof -
  assume k: "0 \<le> k"
  have "(3 * k) * (3 * k) + (4 * k) * (4 * k) = (5 * k)\<^sup>2"
    by (simp add: power2_eq_square algebra_simps)
  then have "vlength (3 * k, 4 * k) = \<bar>5 * k\<bar>"
    by (simp only: vlength_def fst_conv snd_conv real_sqrt_abs)
  with k show ?thesis by simp
qed

lemma handleInteraction_neither:
  "\<not> isTap delta \<Longrightarrow> \<not> isSwipe delta \<Longrightarrow> handleInteraction projects clickPos delta c = Inr c"
  by (simp add: handleInteraction_def Let_def split: option.splits)

lemma navigateToCell_zoomedCellId:
  "plane c = Some u \<Longrightarrow> zoomedCellId (navigateToCell projects cid isInitialZoom c) = Val cid"
  by (simp add: navigateToCell_def Let_def)

lemma handleInteraction_no_plane:
  "plane c = None \<Longrightarrow> handleInteraction projects clickPos delta c = Inr c"
  by (simp add: handleInteraction_def)

lemma handleInteraction_tap_idle:
  assumes "plane c = Some u" and "vlength delta < 10" and "\<not> isZoomed c"
  shows "handleInteraction projects clickPos delta c =
           Inr (navigateToCell projects (cellOf (screenToWorld clickPos c) (uCellSize u)) True c)"
  using assms by (simp add: handleInteraction_def Let_def isTap_def tapThreshold_def)

lemma handleInteraction_tap_zoomed:
  assumes "plane c = Some u" and "vlength delta < 10" and "isZoomed c" and "zoomedCellId c = Val z"
  shows "handleInteraction projects clickPos delta c =
           Inr (if cellOf (screenToWorld clickPos c) (uCellSize u) = z then unzoom projects c
                else navigateToCell projects (cellOf (screenToWorld clickPos c) (uCellSize u))
                       False c)"
  using assms by (simp add: handleInteraction_def Let_def isTap_def tapThreshold_def)

lemma handleInteraction_swipe_zoomed:
  assumes "plane c = Some u" and "vlength delta > 50" and "isZoomed c" and "zoomedCellId c = Val z"
  shows "handleInteraction projects clickPos delta c =
           Inr (navigateToCell projects
                  (if \<bar>fst delta\<bar> > \<bar>snd delta\<bar> then (fst z - sgn (fst delta), snd z)
                   else (fst z, snd z + sgn (snd delta)))
                  False c)"
  using assms
  by (simp add: handleInteraction_def Let_def isTap_def isSwipe_def tapThreshold_def
        swipeThreshold_def)

lemma handleInteraction_swipe_idle:
  assumes "vlength delta > 50" and "\<not> isZoomed c"
  shows "handleInteraction projects clickPos delta c = Inr c"
  using assms
  by (simp add: handleInteraction_def Let_def isTap_def tapThreshold_def split: option.splits)

lemma swipe_moves:
  assumes "vlength delta > 50"
  shows "(if \<bar>fst delta\<bar> > \<bar>snd delta\<bar> then (fst z - sgn (fst delta), snd z)
          else (fst z, snd z + sgn (snd delta))) \<noteq> (z :: vec2)"
proof (cases "\<bar>fst delta\<bar> > \<bar>snd delta\<bar>")
  case True
  then have "fst delta \<noteq> 0" by auto
  then have "sgn (fst delta) \<noteq> 0" by (simp add: sgn_zero_iff)
  with True show ?thesis by (cases z) auto
next
  case False
  have "snd delta \<noteq> 0"
  proof
    assume "snd delta = 0"
    with False have "fst delta = 0" by auto
    with \<open>snd delta = 0\<close> have "vlength delta = 0" by (simp add: vlength_def)
    with assms show False by simp
  qed
  then have "sgn (snd delta) \<noteq> 0" by (simp add: sgn_zero_iff)
  with False show ?thesis by (cases z) auto
qed

text \<open>
  C6: a release gesture is a tap exactly when the length of its displacement is below 10
  and a swipe exactly when it is above 50; from 10 to 50, both bounds included, it is
  neither, and \<open>handleInteraction\<close> leaves the context as it is. A displacement of
  length 5 is a tap, one of length 60 a swipe, one of length 30, 10 or 50 neither. The
  classes are what \<open>handleInteraction\<close> acts on, with a plane: a displacement shorter
  than 10 zooms into the tapped cell when not zoomed and, when zoomed, unzooms if the
  tapped cell is the zoomed one and navigates to the tapped cell otherwise; a displacement
  longer than 50 navigates, when zoomed, to the neighbouring cell along the dominant
  axis, which differs from the zoomed cell, and does nothing when not zoomed. With no
  plane no gesture does anything.
\<close>

theorem tap_swipe_classification:
  fixes delta clickPos z :: vec2 and c :: ThreeContext and u :: uniforms
    and projects :: "Project list js"
  defines "tapped \<equiv> cellOf (screenToWorld clickPos c) (uCellSize u)"
  defines "nextCell \<equiv> (if \<bar>fst delta\<bar> > \<bar>snd delta\<bar> then (fst z - sgn (fst delta), snd z)
                         else (fst z, snd z + sgn (snd delta)))"
  shows "(isTap delta \<longleftrightarrow> vlength delta < 10) \<and> (isSwipe delta \<longleftrightarrow> vlength delta > 50)
   \<and> (10 \<le> vlength delta \<and> vlength delta \<le> 50
        \<longrightarrow> \<not> isTap delta \<and> \<not> isSwipe delta
            \<and> handleInteraction projects clickPos delta c = Inr c)
   \<and> (vlength (3, 4) = 5 \<and> isTap (3, 4) \<and> \<not> isSwipe (3, 4))
   \<and> (vlength (36, 48) = 60 \<and> isSwipe (36, 48) \<and> \<not> isTap (36, 48))
   \<and> (vlength (18, 24) = 30 \<and> \<not> isTap (18, 24) \<and> \<not> isSwipe (18, 24))
   \<and> (vlength (6, 8) = 10 \<and> \<not> isTap (6, 8) \<and> \<not> isSwipe (6, 8))
   \<and> (vlength (30, 40) = 50 \<and> \<not> isTap (30, 40) \<and> \<not> isSwipe (30, 40))
   \<and> (plane c = Some u \<and> vlength delta < 10 \<and> \<not> isZoomed c
        \<longrightarrow> handleInteraction projects clickPos delta c
              = Inr (navigateToCell projects tapped True c)
            \<and> isZoomed (navigateToCell projects tapped True c)
            \<and> zoomedCellId (navigateToCell projects tapped True c) = Val tapped)
   \<and> (plane c = Some u \<and> vlength delta < 10 \<and> isZoomed c \<and> zoomedCellId c = Val z
        \<longrightarrow> handleInteraction projects clickPos delta c
              = Inr (if tapped = z then unzoom projects c
                     else navigateToCell projects tapped False c)
            \<and> \<not> isZoomed (unzoom projects c)
            \<and> zoomedCellId (navigateToCell projects tapped False c) = Val tapped)
   \<and> (plane c = Some u \<and> vlength delta > 50 \<and> isZoomed c \<and> zoomedCellId c = Val z
        \<longrightarrow> handleInteraction projects clickPos delta c
              = Inr (navigateToCell projects nextCell False c)
            \<and> zoomedCellId (navigateToCell projects nextCell False c) = Val nextCell
            \<and> nextCell \<noteq> z)
   \<and> (vlength delta > 50 \<and> \<not> isZoomed c
        \<longrightarrow> handleInteraction projects clickPos delta c = Inr c)
   \<and> (plane c = None \<longrightarrow> handleInteraction projects clickPos delta c = Inr c)"
proof -
  have len: "vlength (3, 4) = 5" "vlength (36, 48) = 60" "vlength (18, 24) = 30"
    "vlength (6, 8) = 10" "vlength (30, 40) = 50"
    using vlength_345 [of 1] vlength_345 [of 12] vlength_345 [of 6] vlength_345 [of 2]
      vlength_345 [of 10] by simp_all
  have neither: "handleInteraction projects clickPos delta c = Inr c"
    if "10 \<le> vlength delta" "vlength delta \<le> 50"
    using that by (intro handleInteraction_neither)
      (simp_all add: isTap_def isSwipe_def tapThreshold_def swipeThreshold_def)
  have old: "(isTap delta \<longleftrightarrow> vlength delta < 10) \<and> (isSwipe delta \<longleftrightarrow> vlength delta > 50)
   \<and> (10 \<le> vlength delta \<and> vlength delta \<le> 50
        \<longrightarrow> \<not> isTap delta \<and> \<not> isSwipe delta
            \<and> handleInteraction projects clickPos delta c = Inr c)
   \<and> (vlength (3, 4) = 5 \<and> isTap (3, 4) \<and> \<not> isSwipe (3, 4))
   \<and> (vlength (36, 48) = 60 \<and> isSwipe (36, 48) \<and> \<not> isTap (36, 48))
   \<and> (vlength (18, 24) = 30 \<and> \<not> isTap (18, 24) \<and> \<not> isSwipe (18, 24))
   \<and> (vlength (6, 8) = 10 \<and> \<not> isTap (6, 8) \<and> \<not> isSwipe (6, 8))
   \<and> (vlength (30, 40) = 50 \<and> \<not> isTap (30, 40) \<and> \<not> isSwipe (30, 40))"
    using neither by (simp add: isTap_def isSwipe_def tapThreshold_def swipeThreshold_def len)
  have tap_idle: "handleInteraction projects clickPos delta c
              = Inr (navigateToCell projects tapped True c)
            \<and> isZoomed (navigateToCell projects tapped True c)
            \<and> zoomedCellId (navigateToCell projects tapped True c) = Val tapped"
    if "plane c = Some u" "vlength delta < 10" "\<not> isZoomed c"
    using that handleInteraction_tap_idle [OF that, of projects clickPos]
      navigateToCell_initial(5,6) [OF that(1), of projects tapped]
    by (simp add: tapped_def)
  have tap_zoomed: "handleInteraction projects clickPos delta c
              = Inr (if tapped = z then unzoom projects c
                     else navigateToCell projects tapped False c)
            \<and> \<not> isZoomed (unzoom projects c)
            \<and> zoomedCellId (navigateToCell projects tapped False c) = Val tapped"
    if "plane c = Some u" "vlength delta < 10" "isZoomed c" "zoomedCellId c = Val z"
    using handleInteraction_tap_zoomed [OF that, of projects clickPos]
      navigateToCell_zoomedCellId [OF that(1), of projects tapped False]
    by (simp add: tapped_def unzoom_fields)
  have swipe_zoomed: "handleInteraction projects clickPos delta c
              = Inr (navigateToCell projects nextCell False c)
            \<and> zoomedCellId (navigateToCell projects nextCell False c) = Val nextCell
            \<and> nextCell \<noteq> z"
    if "plane c = Some u" "vlength delta > 50" "isZoomed c" "zoomedCellId c = Val z"
    using handleInteraction_swipe_zoomed [OF that, of projects clickPos]
      navigateToCell_zoomedCellId [OF that(1), of projects nextCell False]
      swipe_moves [OF that(2), of z]
    by (simp add: nextCell_def)
  have swipe_idle: "handleInteraction projects clickPos delta c = Inr c"
    if "vlength delta > 50" "\<not> isZoomed c"
    using that by (rule handleInteraction_swipe_idle)
  have no_plane: "handleInteraction projects clickPos delta c = Inr c" if "plane c = None"
    using that by (rule handleInteraction_no_plane)
  from old tap_idle tap_zoomed swipe_zoomed swipe_idle no_plane show ?thesis by blast
qed

theorem tap_swipe_classification_witness:
  "10 \<le> vlength (18, 24) \<and> vlength (18, 24) \<le> 50
   \<and> handleInteraction Null (0, 0) (18, 24) (initialContext False) = Inr (initialContext False)
   \<and> vlength (21 / 5, 28 / 5) = 7
   \<and> handleInteraction Null (400, 300) (21 / 5, 28 / 5) (onResize 800 600 (initialContext False))
       = Inr (navigateToCell Null (0, 0) True (onResize 800 600 (initialContext False)))
   \<and> isZoomed (navigateToCell Null (0, 0) True (onResize 800 600 (initialContext False)))
   \<and> vlength (33, 44) = 55
   \<and> handleInteraction Null (400, 300) (33, 44)
         (navigateToCell Null (0, 0) True (onResize 800 600 (initialContext False)))
       = Inr (navigateToCell Null (0, 1) False
                (navigateToCell Null (0, 0) True (onResize 800 600 (initialContext False))))
   \<and> zoomedCellId (navigateToCell Null (0, 1) False
         (navigateToCell Null (0, 0) True (onResize 800 600 (initialContext False)))) = Val (0, 1)
   \<and> handleInteraction Null (400, 300) (3, 4)
         (navigateToCell Null (0, 0) True (onResize 800 600 (initialContext False)))
       = Inr (unzoom Null
                (navigateToCell Null (0, 0) True (onResize 800 600 (initialContext False))))
   \<and> handleInteraction Null (400, 300) (33, 44) (onResize 800 600 (initialContext False))
       = Inr (onResize 800 600 (initialContext False))"
proof -
  let ?u = "(initialUniforms False)\<lparr>uResolution := (800, 600)\<rparr>"
  let ?c0 = "onResize 800 600 (initialContext False)"
  let ?c1 = "navigateToCell Null (0, 0) True ?c0"
  have p0: "plane ?c0 = Some ?u" by (simp add: onResize_initial)
  have idle: "\<not> isZoomed ?c0" by (simp add: onResize_initial) (simp add: initialContext_def)
  have p1: "plane ?c1 = Some ?u"
    by (simp add: navigateToCell_def setVideoState_def Let_def onResize_initial)
       (simp add: initialContext_def)
  have z1: "isZoomed ?c1" "zoomedCellId ?c1 = Val (0, 0)"
    using navigateToCell_initial(5,6) [OF p0, of Null "(0, 0)"] by simp_all
  have w0: "screenToWorld (400, 300) ?c0 = (0, 0)"
    by (simp add: screenToWorld_def onResize_initial Let_def initialUniforms_def vlength_def
          vadd_def multiplyScalar_def vmultiply_def)
       (simp add: initialContext_def)
  have same: "zoom ?c1 = zoom ?c0" "offset ?c1 = offset ?c0" "distortion ?c1 = distortion ?c0"
    by (simp_all add: navigateToCell_def Let_def p0 setVideoState_fields)
  have w1: "screenToWorld (400, 300) ?c1 = (0, 0)"
    using w0 by (simp add: screenToWorld_def p0 p1 same)
  have cell: "cellOf (0, 0) k = (0, 0)" for k
    by (simp add: cellOf_def)
  have len: "vlength (21 / 5, 28 / 5) = 7" "vlength (33, 44) = 55" "vlength (3, 4) = 5"
    using vlength_345 [of "7 / 5"] vlength_345 [of 11] vlength_345 [of 1] by simp_all
  note t_neither = tap_swipe_classification [where delta = "(18, 24)" and projects = Null
      and clickPos = "(0, 0)" and c = "initialContext False"]
  note t_tap = tap_swipe_classification [where delta = "(21 / 5, 28 / 5)" and projects = Null
      and clickPos = "(400, 300)" and c = ?c0 and u = ?u]
  note t_swipe = tap_swipe_classification [where delta = "(33, 44)" and projects = Null
      and clickPos = "(400, 300)" and c = ?c1 and u = ?u and z = "(0, 0)"]
  note t_return = tap_swipe_classification [where delta = "(3, 4)" and projects = Null
      and clickPos = "(400, 300)" and c = ?c1 and u = ?u and z = "(0, 0)"]
  note t_drag = tap_swipe_classification [where delta = "(33, 44)" and projects = Null
      and clickPos = "(400, 300)" and c = ?c0]
  have a: "10 \<le> vlength (18, 24) \<and> vlength (18, 24) \<le> 50
      \<and> handleInteraction Null (0, 0) (18, 24) (initialContext False) = Inr (initialContext False)"
    using t_neither by simp
  have b: "handleInteraction Null (400, 300) (21 / 5, 28 / 5) ?c0 = Inr ?c1 \<and> isZoomed ?c1"
    using t_tap p0 idle len(1) by (simp add: w0 cell)
  have c: "handleInteraction Null (400, 300) (33, 44) ?c1
             = Inr (navigateToCell Null (0, 1) False ?c1)
         \<and> zoomedCellId (navigateToCell Null (0, 1) False ?c1) = Val (0, 1)"
    using t_swipe p1 z1 len(2) by simp
  have d: "handleInteraction Null (400, 300) (3, 4) ?c1 = Inr (unzoom Null ?c1)"
    using t_return p1 z1 len(3) by (simp add: w1 cell)
  have e: "handleInteraction Null (400, 300) (33, 44) ?c0 = Inr ?c0"
    using t_drag idle len(2) by simp
  from a b c d e len show ?thesis by blast
qed

section \<open>The distortion uniform\<close>

lemma springStep_keeps:
  "plane (springStep c) = plane c" "distortion (springStep c) = distortion c"
  "targetDistortion (springStep c) = targetDistortion c" "isZoomed (springStep c) = isZoomed c"
  "targetOffset (springStep c) = targetOffset c"
  by (simp_all add: springStep_def Let_def)

lemma lerpStep_keeps:
  "plane (lerpStep c) = plane c"
  "distortion (lerpStep c) = distortion c + (targetDistortion c - distortion c) * lerpFactor"
  "targetDistortion (lerpStep c) = targetDistortion c" "isZoomed (lerpStep c) = isZoomed c"
  by (simp_all add: lerpStep_def)

lemma hoverStep_plane: "(plane (hoverStep projects c) = None) = (plane c = None)"
proof (cases "plane c")
  case None
  then show ?thesis by (simp add: hoverStep_def)
next
  case (Some u)
  have "plane (fst (setVideoState projects cid (c\<lparr>hoveredCellId := h\<rparr>))) \<noteq> None" for cid h
    using setVideoState_plane_None [of projects cid "c\<lparr>hoveredCellId := h\<rparr>"] Some by simp
  then show ?thesis
    using Some by (simp add: hoverStep_def Let_def split: js.splits)
qed

lemma hoverStep_keeps:
  "distortion (hoverStep projects c) = distortion c"
  "targetDistortion (hoverStep projects c) = targetDistortion c"
  "isZoomed (hoverStep projects c) = isZoomed c"
  by (simp_all add: hoverStep_def Let_def setVideoState_fields
        split: option.splits js.splits)

lemma dragStep_keeps:
  "plane (dragStep c) = plane c" "distortion (dragStep c) = distortion c"
  "targetDistortion (dragStep c) = targetDistortion c" "isZoomed (dragStep c) = isZoomed c"
  by (simp_all add: dragStep_def Let_def split: option.splits)

lemma pushUniforms_keeps:
  "distortion (pushUniforms c) = distortion c"
  "targetDistortion (pushUniforms c) = targetDistortion c" "isZoomed (pushUniforms c) = isZoomed c"
  "map_option uDistortionStrength (plane (pushUniforms c)) = map_option (\<lambda>_. distortion c) (plane c)"
  by (simp_all add: pushUniforms_def split: option.splits)

lemma animate_distortion:
  "distortion (animate projects c) =
     (case plane c of None \<Rightarrow> distortion c
      | Some _ \<Rightarrow> distortion c + (targetDistortion c - distortion c) * lerpFactor)"
  by (simp add: animate_def pushUniforms_keeps dragStep_keeps hoverStep_keeps lerpStep_keeps
        springStep_keeps split: option.splits)

lemma animate_targetDistortion:
  "targetDistortion (animate projects c) = targetDistortion c"
  by (simp add: animate_def pushUniforms_keeps dragStep_keeps hoverStep_keeps lerpStep_keeps
        springStep_keeps split: option.splits)

lemma animate_uniform:
  assumes "plane c = Some u"
  shows "map_option uDistortionStrength (plane (animate projects c)) = Some (distortion (animate projects c))"
proof -
  let ?d = "hoverStep projects (lerpStep (springStep c))"
  have "plane ?d \<noteq> None"
    using assms by (simp add: hoverStep_plane lerpStep_keeps springStep_keeps)
  then obtain u' where "plane (dragStep ?d) = Some u'"
    by (auto simp: dragStep_keeps)
  then show ?thesis
    using assms by (simp add: animate_def pushUniforms_keeps)
qed

lemma useUniforms_keeps:
  "distortion (useUniforms cs d c) = distortion c"
  "targetDistortion (useUniforms cs d c) = targetDistortion c"
  "(plane (useUniforms cs d c) = None) = (plane c = None)"
  "plane c = Some u \<Longrightarrow> map_option uDistortionStrength (plane (useUniforms cs d c)) = Some d"
  by (simp_all add: useUniforms_def split: option.splits)

text \<open>
  C10: after a frame of the loop the uniform \<open>uDistortionStrength\<close> is the distortion of
  the context, which starts at 1 and moves a tenth of the way to the target distortion
  per frame; the target is set to 0 by a first zoom, to 1 by \<open>unzoom\<close> and is left alone
  otherwise. So two contexts that differ only in the \<open>distortionStrength\<close> that
  \<open>useUniforms\<close> wrote have the same uniform after a frame.
\<close>

theorem distortion_uniform_follows_state:
  fixes c :: ThreeContext and projects :: "Project list js"
  assumes "plane c = Some u"
  shows "map_option uDistortionStrength (plane (animate projects c))
           = Some (distortion (animate projects c))
       \<and> distortion (animate projects c)
           = distortion c + (targetDistortion c - distortion c) * lerpFactor
       \<and> targetDistortion (animate projects c) = targetDistortion c
       \<and> map_option uDistortionStrength (plane (useUniforms cellSize d1 c)) = Some d1
       \<and> map_option uDistortionStrength (plane (animate projects (useUniforms cellSize d1 c)))
           = map_option uDistortionStrength (plane (animate projects (useUniforms cellSize d2 c)))
       \<and> distortion (initialContext isMobile) = 1
       \<and> targetDistortion (initialContext isMobile) = 1
       \<and> targetDistortion (navigateToCell projects cid True c) = 0
       \<and> targetDistortion (navigateToCell projects cid False c) = targetDistortion c
       \<and> targetDistortion (unzoom projects c) = 1"
proof -
  have p: "\<exists>w. plane (useUniforms cellSize d c) = Some w" for d
    using assms by (simp add: useUniforms_def)
  have two: "map_option uDistortionStrength (plane (animate projects (useUniforms cellSize d c)))
               = Some (distortion c + (targetDistortion c - distortion c) * lerpFactor)" for d
  proof -
    from p obtain w where w: "plane (useUniforms cellSize d c) = Some w" by blast
    show ?thesis
      using animate_uniform [OF w, of projects] w
      by (simp add: animate_distortion useUniforms_keeps)
  qed
  have nav: "targetDistortion (navigateToCell projects cid False c) = targetDistortion c"
    using assms by (simp add: navigateToCell_def Let_def setVideoState_fields)
  show ?thesis
    using assms animate_uniform [OF assms, of projects] navigateToCell_initial(4) [OF assms, of projects cid]
    by (simp add: animate_distortion two nav unzoom_fields useUniforms_keeps initialContext_def
          animate_targetDistortion)
qed

theorem distortion_uniform_follows_state_witness:
  "map_option uDistortionStrength (plane (animate Null (useUniforms 0.75 0.5 (initialContext False))))
     = Some 1
   \<and> map_option uDistortionStrength (plane (useUniforms 0.75 0.5 (initialContext False))) = Some 0.5"
proof -
  let ?c = "useUniforms 0.75 0.5 (initialContext False)"
  have p: "plane ?c = Some ((initialUniforms False)\<lparr>uCellSize := 0.75, uDistortionStrength := 0.5\<rparr>)"
    by (simp add: useUniforms_def initial_plane)
  have d: "distortion (useUniforms cs ds (initialContext False)) = 1"
    "targetDistortion (useUniforms cs ds (initialContext False)) = 1" for cs ds
    by (simp_all add: useUniforms_keeps initialContext_def)
  from distortion_uniform_follows_state [OF p, where projects = Null]
  have "map_option uDistortionStrength (plane (animate Null ?c)) = Some (distortion (animate Null ?c))"
    and "distortion (animate Null ?c) = distortion ?c + (targetDistortion ?c - distortion ?c) * lerpFactor"
    by blast+
  then show ?thesis using p by (simp add: d)
qed

section \<open>The spring of the camera offset\<close>

lemma spring_scalar_step:
  fixes e v k d :: real
  assumes "k = 1 / 20" and "d = 3 / 4"
  shows "3 * ((e - (v + e * k) * d) * (e - (v + e * k) * d))
         - 17 * ((e - (v + e * k) * d) * ((v + e * k) * d))
         + 60 * (((v + e * k) * d) * ((v + e * k) * d))
         = 3 / 4 * (3 * (e * e) - 17 * (e * v) + 60 * (v * v))"
  unfolding assms by (simp add: algebra_simps)

lemma springStep_error:
  assumes "springError c = (ex, ey)" and "offsetVelocity c = (vx, vy)"
  shows "offsetVelocity (springStep c) =
           ((vx + ex * springStiffness) * damping, (vy + ey * springStiffness) * damping)"
    and "springError (springStep c) =
           (ex - (vx + ex * springStiffness) * damping, ey - (vy + ey * springStiffness) * damping)"
proof -
  have e: "fst (targetOffset c) - fst (offset c) = ex" "snd (targetOffset c) - snd (offset c) = ey"
    using assms(1) by (simp_all add: springError_def vsub_def)
  show "offsetVelocity (springStep c) =
           ((vx + ex * springStiffness) * damping, (vy + ey * springStiffness) * damping)"
    by (simp add: springStep_def Let_def vsub_def vadd_def multiplyScalar_def e assms(2))
  show "springError (springStep c) =
           (ex - (vx + ex * springStiffness) * damping, ey - (vy + ey * springStiffness) * damping)"
    using e by (simp add: springError_def springStep_def Let_def vsub_def vadd_def
        multiplyScalar_def assms(2) algebra_simps)
qed

lemma springEnergy_step: "springEnergy (springStep c) = 3 / 4 * springEnergy c"
proof -
  obtain ex ey where e: "springError c = (ex, ey)" by (cases "springError c")
  obtain vx vy where v: "offsetVelocity c = (vx, vy)" by (cases "offsetVelocity c")
  have k: "springStiffness = 1 / 20" and d: "damping = 3 / 4"
    by (simp_all add: springStiffness_def damping_def)
  have "springEnergy (springStep c) =
      (3 * ((ex - (vx + ex * springStiffness) * damping) * (ex - (vx + ex * springStiffness) * damping))
         - 17 * ((ex - (vx + ex * springStiffness) * damping) * ((vx + ex * springStiffness) * damping))
         + 60 * (((vx + ex * springStiffness) * damping) * ((vx + ex * springStiffness) * damping)))
      + (3 * ((ey - (vy + ey * springStiffness) * damping) * (ey - (vy + ey * springStiffness) * damping))
         - 17 * ((ey - (vy + ey * springStiffness) * damping) * ((vy + ey * springStiffness) * damping))
         + 60 * (((vy + ey * springStiffness) * damping) * ((vy + ey * springStiffness) * damping)))"
    unfolding springEnergy_def Let_def springStep_error [OF e v] fst_conv snd_conv
    by (simp only: algebra_simps)
  also have "\<dots> = 3 / 4 * (3 * (ex * ex) - 17 * (ex * vx) + 60 * (vx * vx))
      + 3 / 4 * (3 * (ey * ey) - 17 * (ey * vy) + 60 * (vy * vy))"
    by (simp only: spring_scalar_step [OF k d])
  also have "\<dots> = 3 / 4 * springEnergy c"
    unfolding springEnergy_def Let_def e v fst_conv snd_conv by (simp only: algebra_simps)
  finally show ?thesis .
qed

lemma springEnergy_funpow: "springEnergy ((springStep ^^ n) c) = (3 / 4) ^ n * springEnergy c"
  by (induction n) (simp_all add: springEnergy_step)

lemma targetOffset_funpow: "targetOffset ((springStep ^^ n) c) = targetOffset c"
  by (induction n) (simp_all add: springStep_def Let_def)

lemma quad_lower: "431 / 240 * (x * x) \<le> 3 * (x * x) - 17 * (x * y) + 60 * (y * y)" for x y :: real
proof -
  have "0 \<le> 60 * (y - 17 / 120 * x)\<^sup>2" by simp
  also have "60 * (y - 17 / 120 * x)\<^sup>2 = 60 * (y * y) - 17 * (x * y) + 289 / 240 * (x * x)"
    by (simp add: power2_eq_square algebra_simps)
  finally show ?thesis by (simp add: algebra_simps)
qed

lemma error_le_energy:
  "(vlength (springError c))\<^sup>2 \<le> 240 / 431 * springEnergy c"
proof -
  obtain ex ey where e: "springError c = (ex, ey)" by (cases "springError c")
  obtain vx vy where v: "offsetVelocity c = (vx, vy)" by (cases "offsetVelocity c")
  have "(vlength (springError c))\<^sup>2 = ex * ex + ey * ey"
    by (simp add: e vlength_def power2_eq_square add_nonneg_nonneg)
  moreover have "431 / 240 * (ex * ex + ey * ey) \<le> springEnergy c"
  proof -
    have "431 / 240 * (ex * ex) + 431 / 240 * (ey * ey)
            \<le> (3 * (ex * ex) - 17 * (ex * vx) + 60 * (vx * vx))
              + (3 * (ey * ey) - 17 * (ey * vy) + 60 * (vy * vy))"
      using quad_lower [of ex vx] quad_lower [of ey vy] by (rule add_mono)
    also have "\<dots> = springEnergy c"
      by (simp add: springEnergy_def e v Let_def algebra_simps)
    finally show ?thesis by (simp add: algebra_simps)
  qed
  ultimately show ?thesis by simp
qed

lemma energy_at_rest:
  "offsetVelocity c = (0, 0) \<Longrightarrow> springEnergy c = 3 * (vlength (springError c))\<^sup>2"
  by (simp add: springEnergy_def Let_def vlength_def power2_eq_square add_nonneg_nonneg)

lemma spring_trace:
  "offset ((springStep ^^ 15) ((initialContext False)\<lparr>targetOffset := (1, 0)\<rparr>))
     = (35178883704964971131438871747 / 35184372088832000000000000000, 0)"
  "offset ((springStep ^^ 16) ((initialContext False)\<lparr>targetOffset := (1, 0)\<rparr>))
     = (2868942724977283953568904320539 / 2814749767106560000000000000000, 0)"
  "targetOffset ((springStep ^^ 15) ((initialContext False)\<lparr>targetOffset := (1, 0)\<rparr>)) = (1, 0)"
  by (simp_all add: eval_nat_numeral springStep_def Let_def initialContext_def vsub_def vadd_def multiplyScalar_def springStiffness_def damping_def)

lemma vlength_axis: "vlength (a, 0) = \<bar>a\<bar>"
  by (simp add: vlength_def)

lemma vlength_nonneg: "0 \<le> vlength v"
  by (simp add: vlength_def)

text \<open>
  C7 does not hold as stated: the approach is not monotonic. From rest at \<open>(0, 0)\<close> with
  the target at \<open>(1, 0)\<close> the offset passes the target, and after step 16 it is farther
  from the target than after step 15.
\<close>

theorem spring_overshoots:
  "offsetVelocity ((initialContext False)\<lparr>targetOffset := (1, 0)\<rparr>) = (0, 0)
   \<and> springDistance ((springStep ^^ 15) ((initialContext False)\<lparr>targetOffset := (1, 0)\<rparr>))
     < springDistance ((springStep ^^ 16) ((initialContext False)\<lparr>targetOffset := (1, 0)\<rparr>))"
  by (simp add: springDistance_def springError_def spring_trace targetOffset_funpow vsub_def
        vlength_axis) (simp add: initialContext_def)

text \<open>
  C7, amended: with the target offset fixed and no velocity at the start, the steps of the
  spring leave the target alone, the square of the distance to the target after \<open>n\<close>
  steps is at most \<open>2 * (3/4)\<^sup>n\<close> times its square at the start, and so the offset comes
  and stays within any tolerance of the target after a bounded number of steps.
\<close>

theorem spring_converges:
  fixes c :: ThreeContext
  assumes "offsetVelocity c = (0, 0)"
  shows "targetOffset ((springStep ^^ n) c) = targetOffset c
       \<and> (springDistance ((springStep ^^ n) c))\<^sup>2 \<le> 2 * (3 / 4) ^ n * (springDistance c)\<^sup>2
       \<and> (\<forall>\<epsilon>>0. \<exists>N. \<forall>m\<ge>N. springDistance ((springStep ^^ m) c) < \<epsilon>)"
proof -
  have bound: "(springDistance ((springStep ^^ k) c))\<^sup>2
                 \<le> 2 * (3 / 4) ^ k * (springDistance c)\<^sup>2" for k
  proof -
    have "(springDistance ((springStep ^^ k) c))\<^sup>2 \<le> 240 / 431 * springEnergy ((springStep ^^ k) c)"
      unfolding springDistance_def by (rule error_le_energy)
    also have "\<dots> = 240 / 431 * ((3 / 4) ^ k * (3 * (springDistance c)\<^sup>2))"
      using energy_at_rest [OF assms(1)] by (simp add: springEnergy_funpow springDistance_def)
    also have "\<dots> = 720 / 431 * ((3 / 4) ^ k * (springDistance c)\<^sup>2)" by simp
    also have "\<dots> \<le> 2 * ((3 / 4) ^ k * (springDistance c)\<^sup>2)"
      by (intro mult_right_mono) simp_all
    finally show ?thesis by (simp add: mult.assoc)
  qed
  have conv: "\<exists>N. \<forall>m\<ge>N. springDistance ((springStep ^^ m) c) < \<epsilon>" if eps: "0 < \<epsilon>" for \<epsilon>
  proof -
    define D where "D = (springDistance c)\<^sup>2"
    have D0: "0 \<le> D" by (simp add: D_def)
    have "0 < \<epsilon>\<^sup>2 / (2 * D + 1)" using eps D0 by simp
    then obtain N where N: "(3 / 4 :: real) ^ N < \<epsilon>\<^sup>2 / (2 * D + 1)"
      using real_arch_pow_inv [of "\<epsilon>\<^sup>2 / (2 * D + 1)" "3 / 4"] by auto
    have "springDistance ((springStep ^^ m) c) < \<epsilon>" if "N \<le> m" for m
    proof -
      have "(3 / 4 :: real) ^ m \<le> (3 / 4) ^ N"
        using that by (intro power_decreasing) simp_all
      with N have "(3 / 4 :: real) ^ m < \<epsilon>\<^sup>2 / (2 * D + 1)" by (rule le_less_trans [rotated])
      then have lt: "(3 / 4 :: real) ^ m * (2 * D + 1) < \<epsilon>\<^sup>2"
        using D0 by (simp add: pos_less_divide_eq)
      have "(springDistance ((springStep ^^ m) c))\<^sup>2 \<le> 2 * (3 / 4) ^ m * D"
        using bound [of m] by (simp add: D_def)
      also have "\<dots> \<le> (3 / 4 :: real) ^ m * (2 * D + 1)"
        by (simp add: algebra_simps)
      also note lt
      finally have "(springDistance ((springStep ^^ m) c))\<^sup>2 < \<epsilon>\<^sup>2" .
      then show ?thesis
        using eps by (simp add: power2_less_imp_less)
    qed
    then show ?thesis by blast
  qed
  show ?thesis using bound conv by (simp add: targetOffset_funpow)
qed

theorem spring_converges_witness:
  "(springDistance ((springStep ^^ 2) ((initialContext False)\<lparr>targetOffset := (1, 0)\<rparr>)))\<^sup>2
     \<le> 2 * (3 / 4) ^ 2 * 1
   \<and> (\<exists>N. \<forall>m\<ge>N. springDistance ((springStep ^^ m) ((initialContext False)\<lparr>targetOffset := (1, 0)\<rparr>)) < 1 / 1000)"
proof -
  let ?c = "(initialContext False)\<lparr>targetOffset := (1, 0)\<rparr>"
  have v: "offsetVelocity ?c = (0, 0)" by (simp add: initialContext_def)
  have d0: "springDistance ?c = 1"
    by (simp add: springDistance_def springError_def initialContext_def vsub_def vlength_def)
  note t = spring_converges [OF v, of 2]
  from t have a: "(springDistance ((springStep ^^ 2) ?c))\<^sup>2 \<le> 2 * (3 / 4) ^ 2 * 1"
    by (simp add: d0)
  from t have "\<forall>\<epsilon>>0. \<exists>N. \<forall>m\<ge>N. springDistance ((springStep ^^ m) ?c) < \<epsilon>"
    by blast
  then have b: "\<exists>N. \<forall>m\<ge>N. springDistance ((springStep ^^ m) ?c) < 1 / 1000"
    by (rule allE [where x = "1 / 1000"]) simp
  from a b show ?thesis by blast
qed

section \<open>Superseded calls of setVideoState\<close>

lemma afterLoad_result:
  "snd (setVideoState_afterLoad r c) = Some r' \<Longrightarrow> r' = r\<lparr>awaiting := AwaitPlay\<rparr>"
  by (auto simp: setVideoState_afterLoad_def split: option.splits js.splits)

lemma afterLoad_ctx:
  "videoNonce (fst (setVideoState_afterLoad r c)) = videoNonce c"
  "(plane (fst (setVideoState_afterLoad r c)) = None) = (plane c = None)"
  "(videoRef (fst (setVideoState_afterLoad r c)) = None) = (videoRef c = None)"
  "map_option src (videoRef (fst (setVideoState_afterLoad r c))) = map_option src (videoRef c)"
  "videoActive (fst (setVideoState_afterLoad r c)) = videoActive c"
  by (simp_all add: setVideoState_afterLoad_def videoActive_def split: option.splits js.splits)

lemma afterPlay_ctx:
  "videoNonce (setVideoState_afterPlay r c) = videoNonce c"
  "(plane (setVideoState_afterPlay r c) = None) = (plane c = None)"
  "videoRef (setVideoState_afterPlay r c) = videoRef c"
  "videoActive (setVideoState_afterPlay r c) \<Longrightarrow> videoActive c \<or> currentNonce r = videoNonce c"
  "currentNonce r \<noteq> videoNonce c \<Longrightarrow> setVideoState_afterPlay r c = c"
  by (simp_all add: setVideoState_afterPlay_def videoActive_def split: option.splits if_splits)

lemma setVideoState_ctx:
  "videoNonce (fst (setVideoState projects cid c)) = videoNonce c + 1"
  "(plane (fst (setVideoState projects cid c)) = None) = (plane c = None)"
  "(videoRef (fst (setVideoState projects cid c)) = None) = (videoRef c = None)"
  by (simp_all add: setVideoState_def setVideoState_afterLoad_def Let_def
        split: option.splits js.splits)

lemma setVideoState_inactive:
  "plane c \<noteq> None \<Longrightarrow> videoRef c \<noteq> None \<Longrightarrow> \<not> videoActive (fst (setVideoState projects cid c))"
  by (auto simp: setVideoState_def setVideoState_afterLoad_def Let_def videoActive_def
        split: option.splits js.splits)

lemma setVideoState_request:
  "snd (setVideoState projects cid c) = Some r \<Longrightarrow>
     currentNonce r = videoNonce c + 1 \<and> cellId r = cid \<and> newSrc r \<noteq> []
     \<and> videoOf (getProjectByCellId cid projects) = Some (newSrc r)"
  by (auto simp: setVideoState_def setVideoState_afterLoad_def Let_def
        split: option.splits js.splits if_splits)

lemma setVideoState_src:
  "plane c \<noteq> None \<Longrightarrow> videoRef c \<noteq> None \<Longrightarrow>
   videoOf (getProjectByCellId cid projects) = Some x \<Longrightarrow> x \<noteq> [] \<Longrightarrow>
   map_option src (videoRef (fst (setVideoState projects cid c))) = Some x"
  by (auto simp: setVideoState_def setVideoState_afterLoad_def Let_def
        split: option.splits js.splits if_splits)

lemma find_waiting:
  "find (waiting n p) xs = Some r \<Longrightarrow> r \<in> set xs \<and> currentNonce r = n \<and> awaiting r = p"
  by (auto simp: find_Some_iff waiting_def)

lemma in_remove1: "x \<in> set (remove1 r xs) \<Longrightarrow> x \<in> set xs"
  using set_remove1_subset [of r xs] by blast

lemma in_resume: "x \<in> set (resume r) \<Longrightarrow> r = Some x"
  by (cases r) (simp_all add: resume_def)

lemma exec_nonce:
  "videoNonce (ctx (exec projects e s)) = videoNonce (ctx s) + (if isCall e then 1 else 0)"
  by (cases e)
     (simp_all add: isCall_def setVideoState_ctx afterLoad_ctx afterPlay_ctx setVideoState_catch_def
        split_beta Let_def split: option.splits)

lemma exec_present:
  "(plane (ctx (exec projects e s)) = None) = (plane (ctx s) = None)"
  "(videoRef (ctx (exec projects e s)) = None) = (videoRef (ctx s) = None)"
  by (cases e;
      simp add: setVideoState_ctx afterLoad_ctx afterPlay_ctx setVideoState_catch_def
        split_beta Let_def split: option.splits)+

lemma exec_src:
  "\<not> isCall e \<Longrightarrow>
     map_option src (videoRef (ctx (exec projects e s))) = map_option src (videoRef (ctx s))"
  by (cases e)
     (simp_all add: isCall_def afterLoad_ctx afterPlay_ctx setVideoState_catch_def
        split_beta Let_def split: option.splits)

lemma exec_pending:
  assumes "r \<in> set (pending (exec projects e s))"
  shows "(\<exists>r0 \<in> set (pending s). currentNonce r = currentNonce r0 \<and> newSrc r = newSrc r0
            \<and> cellId r = cellId r0)
       \<or> (\<exists>cid. e = Call cid \<and> snd (setVideoState projects cid (ctx s)) = Some r)"
proof (cases e)
  case (Call cid)
  with assms show ?thesis
    by (auto simp: split_beta Let_def dest: in_resume)
next
  case (LoadDone n)
  show ?thesis
  proof (cases "find (waiting n AwaitLoad) (pending s)")
    case None
    with assms LoadDone show ?thesis by auto
  next
    case (Some r0)
    then have r0: "r0 \<in> set (pending s)" by (simp add: find_waiting)
    from assms LoadDone Some
    have "r \<in> set (remove1 r0 (pending s)) \<or> r \<in> set (resume (snd (setVideoState_afterLoad r0 (ctx s))))"
      by (simp add: split_beta Let_def)
    then show ?thesis
    proof
      assume "r \<in> set (remove1 r0 (pending s))"
      then show ?thesis by (blast dest: in_remove1)
    next
      assume "r \<in> set (resume (snd (setVideoState_afterLoad r0 (ctx s))))"
      then have "r = r0\<lparr>awaiting := AwaitPlay\<rparr>"
        by (blast dest: in_resume afterLoad_result)
      with r0 show ?thesis by auto
    qed
  qed
next
  case (PlayResolved n)
  with assms show ?thesis
    by (auto split: option.splits dest: in_remove1)
next
  case (PlayRejected n)
  with assms show ?thesis
    by (auto split: option.splits dest: in_remove1)
qed

lemma exec_wellFormed: "wellFormed s \<Longrightarrow> wellFormed (exec projects e s)"
  unfolding wellFormed_def
proof
  fix r
  assume wf: "\<forall>r\<in>set (pending s). currentNonce r \<le> videoNonce (ctx s)"
    and r: "r \<in> set (pending (exec projects e s))"
  from exec_pending [OF r] show "currentNonce r \<le> videoNonce (ctx (exec projects e s))"
  proof
    assume "\<exists>r0 \<in> set (pending s). currentNonce r = currentNonce r0 \<and> newSrc r = newSrc r0
            \<and> cellId r = cellId r0"
    with wf show ?thesis by (auto simp: exec_nonce)
  next
    assume "\<exists>cid. e = Call cid \<and> snd (setVideoState projects cid (ctx s)) = Some r"
    then show ?thesis
      by (auto simp: exec_nonce isCall_def dest: setVideoState_request)
  qed
qed

lemma run_snoc: "run projects (evs @ [e]) s = exec projects e (run projects evs s)"
  by (simp add: run_def)

lemma run_Nil: "run projects [] s = s"
  by (simp add: run_def)

lemma run_wellFormed: "wellFormed s \<Longrightarrow> wellFormed (run projects evs s)"
  by (induction evs rule: rev_induct) (simp_all add: run_Nil run_snoc exec_wellFormed)

lemma run_nonce:
  "\<forall>e \<in> set evs. \<not> isCall e \<Longrightarrow> videoNonce (ctx (run projects evs s)) = videoNonce (ctx s)"
  by (induction evs rule: rev_induct) (simp_all add: run_Nil run_snoc exec_nonce)

lemma run_present:
  "(plane (ctx (run projects evs s)) = None) = (plane (ctx s) = None)"
  "(videoRef (ctx (run projects evs s)) = None) = (videoRef (ctx s) = None)"
  by (induction evs rule: rev_induct) (simp_all add: run_Nil run_snoc exec_present)

lemma exec_active:
  assumes "\<not> isCall e" and "videoActive (ctx (exec projects e s))"
  shows "videoActive (ctx s)
       \<or> (e = PlayResolved (videoNonce (ctx s))
           \<and> (\<exists>r \<in> set (pending s). currentNonce r = videoNonce (ctx s)))"
proof (cases e)
  case (Call cid)
  with assms show ?thesis by (simp add: isCall_def)
next
  case (LoadDone n)
  with assms show ?thesis
    by (auto simp: split_beta Let_def afterLoad_ctx split: option.splits)
next
  case (PlayResolved n)
  show ?thesis
  proof (cases "find (waiting n AwaitPlay) (pending s)")
    case None
    with assms PlayResolved show ?thesis by simp
  next
    case (Some r)
    then have r: "r \<in> set (pending s)" "currentNonce r = n" by (simp_all add: find_waiting)
    from assms PlayResolved Some have "videoActive (setVideoState_afterPlay r (ctx s))" by simp
    then have "videoActive (ctx s) \<or> currentNonce r = videoNonce (ctx s)"
      by (rule afterPlay_ctx)
    with r PlayResolved show ?thesis by auto
  qed
next
  case (PlayRejected n)
  with assms show ?thesis
    by (auto simp: setVideoState_catch_def split: option.splits)
qed

lemma run_src:
  "\<forall>e \<in> set evs. \<not> isCall e \<Longrightarrow>
     map_option src (videoRef (ctx (run projects evs s))) = map_option src (videoRef (ctx s))"
  by (induction evs rule: rev_induct) (simp_all add: run_Nil run_snoc exec_src)

lemma run_pending_src:
  assumes "\<forall>e \<in> set evs. \<not> isCall e"
    and "\<forall>r \<in> set (pending s). currentNonce r = n \<longrightarrow> newSrc r \<noteq> [] \<and> vid = Some (newSrc r)"
  shows "\<forall>r \<in> set (pending (run projects evs s)).
           currentNonce r = n \<longrightarrow> newSrc r \<noteq> [] \<and> vid = Some (newSrc r)"
  using assms(1)
proof (induction evs rule: rev_induct)
  case Nil
  show ?case using assms(2) by (simp add: run_Nil)
next
  case (snoc e evs)
  then have ih: "\<forall>r \<in> set (pending (run projects evs s)).
           currentNonce r = n \<longrightarrow> newSrc r \<noteq> [] \<and> vid = Some (newSrc r)"
    and e: "\<not> isCall e" by simp_all
  show ?case
  proof
    fix r assume "r \<in> set (pending (run projects (evs @ [e]) s))"
    then have "r \<in> set (pending (exec projects e (run projects evs s)))" by (simp add: run_snoc)
    from exec_pending [OF this] e
    obtain r0 where "r0 \<in> set (pending (run projects evs s))"
      "currentNonce r = currentNonce r0" "newSrc r = newSrc r0"
      by (auto simp: isCall_def)
    with ih show "currentNonce r = n \<longrightarrow> newSrc r \<noteq> [] \<and> vid = Some (newSrc r)" by auto
  qed
qed

lemma run_active:
  assumes calls: "\<forall>e \<in> set evs. \<not> isCall e"
    and inactive: "\<not> videoActive (ctx s)"
    and pend: "\<forall>r \<in> set (pending s). currentNonce r = videoNonce (ctx s)
                 \<longrightarrow> newSrc r \<noteq> [] \<and> vid = Some (newSrc r)"
  shows "videoActive (ctx (run projects evs s)) \<longrightarrow>
           PlayResolved (videoNonce (ctx s)) \<in> set evs \<and> (\<exists>x. x \<noteq> [] \<and> vid = Some x)"
  using calls
proof (induction evs rule: rev_induct)
  case Nil
  show ?case using inactive by (simp add: run_Nil)
next
  case (snoc e evs)
  then have ih: "videoActive (ctx (run projects evs s)) \<longrightarrow>
           PlayResolved (videoNonce (ctx s)) \<in> set evs \<and> (\<exists>x. x \<noteq> [] \<and> vid = Some x)"
    and e: "\<not> isCall e" and evs: "\<forall>e \<in> set evs. \<not> isCall e" by simp_all
  let ?t = "run projects evs s"
  have n: "videoNonce (ctx ?t) = videoNonce (ctx s)" using evs by (rule run_nonce)
  have p: "\<forall>r \<in> set (pending ?t). currentNonce r = videoNonce (ctx s)
             \<longrightarrow> newSrc r \<noteq> [] \<and> vid = Some (newSrc r)"
    using evs pend by (rule run_pending_src)
  show ?case
  proof
    assume "videoActive (ctx (run projects (evs @ [e]) s))"
    then have "videoActive (ctx (exec projects e ?t))" by (simp add: run_snoc)
    from exec_active [OF e this]
    show "PlayResolved (videoNonce (ctx s)) \<in> set (evs @ [e]) \<and> (\<exists>x. x \<noteq> [] \<and> vid = Some x)"
    proof
      assume "videoActive (ctx ?t)"
      with ih show ?thesis by simp
    next
      assume "e = PlayResolved (videoNonce (ctx ?t))
           \<and> (\<exists>r \<in> set (pending ?t). currentNonce r = videoNonce (ctx ?t))"
      with n p show ?thesis by auto
    qed
  qed
qed

lemma stale_afterPlay:
  assumes "n \<noteq> videoNonce (ctx s)"
  shows "ctx (exec projects (PlayResolved n) s) = ctx s"
proof (cases "find (waiting n AwaitPlay) (pending s)")
  case None
  then show ?thesis by simp
next
  case (Some r)
  then have "currentNonce r = n" by (simp add: find_waiting)
  with assms have "setVideoState_afterPlay r (ctx s) = ctx s"
    by (intro afterPlay_ctx) simp
  with Some show ?thesis by simp
qed

lemma loadDone_active:
  "videoActive (ctx (exec projects (LoadDone n) s)) = videoActive (ctx s)"
  by (simp add: split_beta Let_def afterLoad_ctx split: option.splits)

text \<open>
  C5: let \<open>setVideoState\<close> be called for a cell A and then, after any resumptions of
  pending calls, for a cell B, in a context with a plane and a video element; let pending
  calls then resume in any order, with no further call. Then the counter stays at the nonce
  of B; whenever the shader is told that a video is active, it is the call for B that said
  so after its \<open>play()\<close> resolved, B has a video and that video is the source of the
  element; and the call for A, when its \<open>play()\<close> resolves or its load completes at any
  such point, does not activate anything: its resolution leaves the context as it is.
\<close>

theorem stale_request_never_activates:
  fixes s0 :: system and projects :: "Project list js" and cellA cellB :: "vec2 js"
    and pre post :: "event list"
  assumes pl: "plane (ctx s0) \<noteq> None" and vr: "videoRef (ctx s0) \<noteq> None"
    and wf: "wellFormed s0"
    and pre: "\<forall>e \<in> set pre. \<not> isCall e" and post: "\<forall>e \<in> set post. \<not> isCall e"
  defines "nA \<equiv> videoNonce (ctx s0) + 1" and "nB \<equiv> videoNonce (ctx s0) + 2"
  defines "s \<equiv> run projects post
                 (exec projects (Call cellB) (run projects pre (exec projects (Call cellA) s0)))"
  shows "videoNonce (ctx s) = nB
       \<and> (videoActive (ctx s) \<longrightarrow>
            PlayResolved nB \<in> set post
            \<and> (\<exists>x. videoOf (getProjectByCellId cellB projects) = Some x
                   \<and> map_option src (videoRef (ctx s)) = Some x))
       \<and> ctx (exec projects (PlayResolved nA) s) = ctx s
       \<and> videoActive (ctx (exec projects (LoadDone nA) s)) = videoActive (ctx s)"
proof -
  let ?s1 = "exec projects (Call cellA) s0"
  let ?s2 = "run projects pre ?s1"
  let ?sB = "exec projects (Call cellB) ?s2"
  let ?vid = "videoOf (getProjectByCellId cellB projects)"
  have call: "isCall (Call cid)" for cid by (simp add: isCall_def)
  have n1: "videoNonce (ctx ?s1) = nA"
    unfolding exec_nonce [of projects "Call cellA" s0] nA_def using call by simp
  have n2: "videoNonce (ctx ?s2) = nA"
    unfolding run_nonce [OF pre] by (rule n1)
  have nB: "videoNonce (ctx ?sB) = nB"
    unfolding exec_nonce [of projects "Call cellB" ?s2] n2 nA_def nB_def using call by simp
  have wf2: "wellFormed ?s2"
    using wf by (intro run_wellFormed exec_wellFormed)
  have pres2: "plane (ctx ?s2) \<noteq> None" "videoRef (ctx ?s2) \<noteq> None"
    unfolding run_present exec_present using pl vr by blast+
  have ctxB: "ctx ?sB = fst (setVideoState projects cellB (ctx ?s2))"
    by (simp add: split_beta Let_def)
  have inactive: "\<not> videoActive (ctx ?sB)"
    unfolding ctxB using pres2 by (rule setVideoState_inactive)
  have pend: "\<forall>r \<in> set (pending ?sB). currentNonce r = videoNonce (ctx ?sB)
                \<longrightarrow> newSrc r \<noteq> [] \<and> ?vid = Some (newSrc r)"
  proof
    fix r assume "r \<in> set (pending ?sB)"
    from exec_pending [OF this]
    show "currentNonce r = videoNonce (ctx ?sB) \<longrightarrow> newSrc r \<noteq> [] \<and> ?vid = Some (newSrc r)"
    proof
      assume "\<exists>r0 \<in> set (pending ?s2). currentNonce r = currentNonce r0 \<and> newSrc r = newSrc r0
            \<and> cellId r = cellId r0"
      then have "currentNonce r \<le> nA" using wf2 n2 by (auto simp: wellFormed_def)
      then show ?thesis using nB by (simp add: nA_def nB_def)
    next
      assume "\<exists>cid. Call cellB = Call cid \<and> snd (setVideoState projects cid (ctx ?s2)) = Some r"
      then have "snd (setVideoState projects cellB (ctx ?s2)) = Some r" by simp
      from setVideoState_request [OF this] show ?thesis by simp
    qed
  qed
  have count: "videoNonce (ctx s) = nB"
    using post nB by (simp add: s_def run_nonce)
  have act: "videoActive (ctx s) \<longrightarrow>
      PlayResolved nB \<in> set post \<and> (\<exists>x. x \<noteq> [] \<and> ?vid = Some x)"
    using run_active [OF post inactive pend] nB by (simp add: s_def)
  have active: "PlayResolved nB \<in> set post
            \<and> (\<exists>x. ?vid = Some x \<and> map_option src (videoRef (ctx s)) = Some x)"
    if a: "videoActive (ctx s)"
  proof -
    from act a obtain x where x: "PlayResolved nB \<in> set post" "x \<noteq> []" "?vid = Some x" by blast
    have "map_option src (videoRef (ctx ?sB)) = Some x"
      unfolding ctxB using pres2 x(3) x(2) by (rule setVideoState_src)
    then have "map_option src (videoRef (ctx s)) = Some x"
      using post by (simp add: s_def run_src)
    with x show ?thesis by blast
  qed
  have stale: "ctx (exec projects (PlayResolved nA) s) = ctx s"
    by (rule stale_afterPlay) (simp add: count nA_def nB_def)
  have load: "videoActive (ctx (exec projects (LoadDone nA) s)) = videoActive (ctx s)"
    by (rule loadDone_active)
  from count active stale load show ?thesis by blast
qed

lemma sample_video:
  "videoOf (getProjectByCellId (Val (0, 0)) sampleProjects) = Some ''a.mp4''"
  "videoOf (getProjectByCellId (Val (1, 0)) sampleProjects) = Some ''b.mp4''"
  by (simp_all add: sampleProjects_def videoOf_def projectIndex_def flatIndex_def js_rem_wrap
        js_index_def)

lemma sample_run:
  "videoActive (ctx (run sampleProjects [LoadDone 2, PlayResolved 1, PlayResolved 2]
     (exec sampleProjects (Call (Val (1, 0)))
        (run sampleProjects [LoadDone 1] (exec sampleProjects (Call (Val (0, 0))) sampleStart)))))"
  "map_option uHoveredCellId (plane (ctx (run sampleProjects [LoadDone 2, PlayResolved 1, PlayResolved 2]
     (exec sampleProjects (Call (Val (1, 0)))
        (run sampleProjects [LoadDone 1] (exec sampleProjects (Call (Val (0, 0))) sampleStart))))))
    = Some (1, 0)"
  "\<not> videoActive (ctx (run sampleProjects [LoadDone 2, PlayResolved 1]
     (exec sampleProjects (Call (Val (1, 0)))
        (run sampleProjects [LoadDone 1] (exec sampleProjects (Call (Val (0, 0))) sampleStart)))))"
  by (simp_all add: run_def sampleStart_def createVideo_def initialContext_def initialUniforms_def
      setVideoState_def setVideoState_afterLoad_def setVideoState_afterPlay_def sample_video
      Let_def waiting_def resume_def videoActive_def)

theorem stale_request_never_activates_witness:
  "wellFormed sampleStart
   \<and> videoNonce (ctx (run sampleProjects [LoadDone 2, PlayResolved 1, PlayResolved 2]
        (exec sampleProjects (Call (Val (1, 0)))
          (run sampleProjects [LoadDone 1]
            (exec sampleProjects (Call (Val (0, 0))) sampleStart))))) = 2
   \<and> videoActive (ctx (run sampleProjects [LoadDone 2, PlayResolved 1, PlayResolved 2]
        (exec sampleProjects (Call (Val (1, 0)))
          (run sampleProjects [LoadDone 1]
            (exec sampleProjects (Call (Val (0, 0))) sampleStart)))))
   \<and> map_option src (videoRef (ctx (run sampleProjects [LoadDone 2, PlayResolved 1, PlayResolved 2]
        (exec sampleProjects (Call (Val (1, 0)))
          (run sampleProjects [LoadDone 1]
            (exec sampleProjects (Call (Val (0, 0))) sampleStart)))))) = Some ''b.mp4''"
proof -
  have c: "plane (ctx sampleStart) \<noteq> None" "videoRef (ctx sampleStart) \<noteq> None"
    by (simp_all add: sampleStart_def createVideo_def initialContext_def)
  have n: "videoNonce (ctx sampleStart) = 0"
    by (simp add: sampleStart_def createVideo_def initialContext_def)
  have w: "wellFormed sampleStart" by (simp add: wellFormed_def sampleStart_def)
  have pre: "\<forall>e \<in> set [LoadDone 1]. \<not> isCall e"
    and post: "\<forall>e \<in> set [LoadDone 2, PlayResolved 1, PlayResolved 2]. \<not> isCall e"
    by (simp_all add: isCall_def)
  note t = stale_request_never_activates [OF c w pre post,
      where projects = sampleProjects and cellA = "Val (0, 0)" and cellB = "Val (1, 0)", unfolded n]
  from t sample_run(1) w show ?thesis
    by (simp add: sample_video del: exec.simps)
qed

section \<open>The shader with no textures\<close>

lemma gmod_zero: "gmod x 0 = None"
  by (simp add: gmod_def)

lemma loading_sel:
  "uResolution loadingUniforms = (600, 600)" "uZoom loadingUniforms = 1"
  "uDistortionStrength loadingUniforms = 1" "uCellSize loadingUniforms = 3 / 4"
  "uTextureCount loadingUniforms = 0" "uOptimizeMobile loadingUniforms"
  "\<not> uIsVideoActive loadingUniforms" "uOffset loadingUniforms = (3 / 8, 3 / 8)"
  "uMousePos loadingUniforms = (300, 300)" "uHoverEnabled loadingUniforms"
  "uBackgroundColor loadingUniforms = (0, 0, 0, 1)" "uBorderColor loadingUniforms = (0, 0, 0, 1)"
  "uHoverColor loadingUniforms = (0, 0, 0, 1)"
  by (simp_all add: loadingUniforms_def glUniforms_sel loadingContext_def initialUniforms_def
        initialContext_def onResize_def)
     (simp_all add: glUniforms_def uniforms.defs gl_uniforms.defs)

lemma vlength_zero: "vlength (0, 0) = 0"
  by (simp add: vlength_def)

lemma loading_cell:
  "sceneCell loadingUniforms (1 / 2, 1 / 2) = Some ((0, 0), (1 / 2, 1 / 2), (3 / 8, 3 / 8), 0)"
  by (simp add: sceneCell_def loading_sel Let_def gdiv_def multiplyScalar_def addScalar_def
        vmultiply_def vadd_def vlength_zero fract_def)

lemma smoothstep_values:
  "smoothstep (9 / 8) 0 0 = Some 1"
  "smoothstep 0 LINE_WIDTH (1 / 2) = Some 1" "smoothstep 1 (1 - LINE_WIDTH) (1 / 2) = Some 1"
  "smoothstep 0 (1 / 100) (1 / 2) = Some 1" "smoothstep 1 (99 / 100) (1 / 2) = Some 1"
  by (simp_all add: smoothstep_def gdiv_def clamp_def LINE_WIDTH_def)

lemma loading_grid:
  "drawGrid loadingUniforms (0, 0, 0) (1 / 2, 1 / 2) (3 / 8, 3 / 8) (0, 0) = Some (0, 0, 0)"
  by (simp add: drawGrid_def loading_sel smoothstep_values Let_def multiplyScalar_def addScalar_def
        vsub_def vlength_zero mix3_def mix_def rgb_def alpha_def)

lemma loading_image:
  "drawImage loadingUniforms T (0, 0, 0) (1 / 2, 1 / 2) (0, 0) 1 0 = None"
  by (simp add: drawImage_def loading_sel smoothstep_values Let_def gdiv_def gmod_zero
        IMAGE_SIZE_def)

lemma drawText_zero_textures:
  assumes "uTextureCount g = 0"
  shows "drawText g T color cellUV cid hoverIntensity =
           (if fst cellUV > 0.05 \<and> fst cellUV < 0.95 \<and> snd cellUV > 0.05
                \<and> snd cellUV < 0.05 + TEXT_HEIGHT
            then None else Some color)"
  using assms by (simp add: drawText_def gmod_zero Let_def)

text \<open>
  C9: the shader does not guard a texture count of 0. With the uniforms as they are while
  the textures load, \<open>drawImage\<close> at the centre of a cell and \<open>drawText\<close> inside the text
  band compute the atlas index by \<open>mod\<close> with a zero divisor, so their colour is undefined,
  and so is the colour that \<open>getSceneColor\<close> returns for the pixel at the centre of the
  canvas: it is not the background with the grid.
\<close>

theorem zero_textures_undefined:
  "uTextureCount (initialUniforms isMobile) = 0
   \<and> uTextureCount loadingUniforms = 0
   \<and> drawImage loadingUniforms T (0, 0, 0) (1 / 2, 1 / 2) (0, 0) 1 0 = None
   \<and> drawText loadingUniforms T (0, 0, 0) (1 / 2, 1 / 10) (0, 0) 1 = None
   \<and> getSceneColor loadingUniforms T (1 / 2, 1 / 2) 0 = None"
proof -
  have band: "drawText loadingUniforms T (0, 0, 0) (1 / 2, 1 / 10) (0, 0) 1 = None"
    by (simp add: drawText_def loading_sel TEXT_HEIGHT_def gmod_zero)
  have scene: "getSceneColor loadingUniforms T (1 / 2, 1 / 2) 0 = None"
    by (simp add: getSceneColor_def loading_cell loading_sel Let_def multiplyScalar_def
        addScalar_def vsub_def vlength_zero smoothstep_values rgb_def loading_grid loading_image)
  show ?thesis
    by (simp add: initialUniforms_def loading_sel loading_image band scene)
qed

section \<open>The resting distortion is kept\<close>

text \<open>
  The relation between the zoom flag and the target distortion holds at the start and is
  kept by a frame, by a gesture, by \<open>navigateToCell\<close> and by \<open>unzoom\<close>: a context that is
  not zoomed has the target distortion 1.
\<close>

lemma navigateToCell_further:
  "isZoomed (navigateToCell projects cid False c) = isZoomed c"
  "targetDistortion (navigateToCell projects cid False c) = targetDistortion c"
  by (simp_all add: navigateToCell_def Let_def setVideoState_fields split: option.splits)

lemma ambientInv_initial: "ambientInv (initialContext isMobile)"
  by (simp add: ambientInv_def initialContext_def)

lemma ambientInv_navigateToCell:
  "ambientInv c \<Longrightarrow> ambientInv (navigateToCell projects cid isInitialZoom c)"
proof (cases "plane c")
  case None
  assume "ambientInv c"
  with None show ?thesis by (simp add: navigateToCell_def)
next
  case (Some u)
  assume a: "ambientInv c"
  show ?thesis
  proof (cases isInitialZoom)
    case True
    with navigateToCell_initial(4,5) [OF Some, of projects cid] show ?thesis
      by (simp add: ambientInv_def)
  next
    case False
    with a show ?thesis by (simp add: ambientInv_def navigateToCell_further)
  qed
qed

lemma ambientInv_unzoom: "ambientInv (unzoom projects c)"
  by (simp add: ambientInv_def unzoom_fields)

lemma animate_isZoomed: "isZoomed (animate projects c) = isZoomed c"
  by (simp add: animate_def pushUniforms_keeps dragStep_keeps hoverStep_keeps lerpStep_keeps
        springStep_keeps split: option.splits)

lemma ambientInv_animate: "ambientInv c \<Longrightarrow> ambientInv (animate projects c)"
  by (simp add: ambientInv_def animate_isZoomed animate_targetDistortion)

lemma ambientInv_handleInteraction:
  "ambientInv c \<Longrightarrow> handleInteraction projects clickPos delta c = Inr c' \<Longrightarrow> ambientInv c'"
  by (auto simp: handleInteraction_def Let_def ambientInv_navigateToCell ambientInv_unzoom
        split: option.splits if_splits js.splits)

section \<open>The cell of the active video\<close>

text \<open>
  A call that resumes after \<open>await videoRef.load()\<close> writes its cell into the uniform
  without looking at the nonce. \<open>load()\<close> returns no promise, so that resumption runs
  right after the code that made the call, before any later call; a call superseded later
  has then already written its cell. When, accordingly, no load other than that of the call
  for B completes after the call for B, an active video is shown in cell B.
\<close>

lemma afterLoad_hovered:
  "snd (setVideoState_afterLoad r c) = Some r' \<Longrightarrow>
     (case plane (fst (setVideoState_afterLoad r c)) of Some u \<Rightarrow> Val (uHoveredCellId u) | None \<Rightarrow> Null)
       = cellId r"
  by (auto simp: setVideoState_afterLoad_def split: option.splits js.splits)

lemma afterLoad_unchanged:
  "snd (setVideoState_afterLoad r c) = None \<Longrightarrow> fst (setVideoState_afterLoad r c) = c"
  by (auto simp: setVideoState_afterLoad_def split: option.splits js.splits)

lemma afterPlay_hovered:
  "(case plane (setVideoState_afterPlay r c) of Some u \<Rightarrow> Val (uHoveredCellId u) | None \<Rightarrow> Null)
     = (case plane c of Some u \<Rightarrow> Val (uHoveredCellId u) | None \<Rightarrow> Null)"
  by (simp add: setVideoState_afterPlay_def split: option.splits)

lemma setVideoState_hovered:
  "snd (setVideoState projects cid c) = Some r \<Longrightarrow> awaiting r = AwaitPlay \<Longrightarrow>
     (case plane (fst (setVideoState projects cid c)) of Some u \<Rightarrow> Val (uHoveredCellId u) | None \<Rightarrow> Null)
       = cid"
  by (auto simp: setVideoState_def setVideoState_afterLoad_def Let_def
        split: option.splits js.splits if_splits)

lemma exec_shownInCell:
  assumes inv: "shownInCell n cid s"
    and nonce: "videoNonce (ctx s) = n"
    and cells: "\<forall>r \<in> set (pending s). currentNonce r = n \<longrightarrow> cellId r = cid"
    and e: "\<not> isCall e" "\<forall>m. e = LoadDone m \<longrightarrow> m = n"
  shows "shownInCell n cid (exec projects e s)"
proof (cases e)
  case (Call x)
  with e show ?thesis by (simp add: isCall_def)
next
  case (LoadDone m)
  with e have m: "m = n" by simp
  show ?thesis
  proof (cases "find (waiting n AwaitLoad) (pending s)")
    case None
    with inv LoadDone m show ?thesis by simp
  next
    case (Some r0)
    then have r0: "r0 \<in> set (pending s)" "currentNonce r0 = n" by (simp_all add: find_waiting)
    with cells have c0: "cellId r0 = cid" by simp
    show ?thesis
    proof (cases "snd (setVideoState_afterLoad r0 (ctx s))")
      case None
      then have same: "fst (setVideoState_afterLoad r0 (ctx s)) = ctx s"
        by (rule afterLoad_unchanged)
      have "exec projects e s = \<lparr>ctx = ctx s, pending = remove1 r0 (pending s)\<rparr>"
        using LoadDone m Some None same by (simp add: split_beta Let_def resume_def)
      with inv show ?thesis
        by (auto simp: shownInCell_def hoveredUniform_def dest: in_remove1)
    next
      case (Some r')
      have "hoveredUniform (exec projects e s) = cid"
        using LoadDone m \<open>find (waiting n AwaitLoad) (pending s) = Some r0\<close>
          afterLoad_hovered [OF Some] c0
        by (simp add: hoveredUniform_def split_beta Let_def)
      then show ?thesis by (simp add: shownInCell_def)
    qed
  qed
next
  case (PlayResolved m)
  show ?thesis
  proof (cases "find (waiting m AwaitPlay) (pending s)")
    case None
    with inv PlayResolved show ?thesis by simp
  next
    case (Some r)
    then have r: "r \<in> set (pending s)" "currentNonce r = m" "awaiting r = AwaitPlay"
      by (simp_all add: find_waiting)
    have ex: "exec projects e s
                = \<lparr>ctx = setVideoState_afterPlay r (ctx s), pending = remove1 r (pending s)\<rparr>"
      using PlayResolved Some by simp
    have hov: "hoveredUniform (exec projects e s) = hoveredUniform s"
      unfolding ex by (simp add: hoveredUniform_def afterPlay_hovered)
    have "videoActive (ctx s) \<or> (\<exists>r \<in> set (pending s). currentNonce r = n \<and> awaiting r = AwaitPlay)"
      if "videoActive (ctx (exec projects e s))
          \<or> (\<exists>r \<in> set (pending (exec projects e s)). currentNonce r = n \<and> awaiting r = AwaitPlay)"
      using that
    proof
      assume "videoActive (ctx (exec projects e s))"
      then have "videoActive (setVideoState_afterPlay r (ctx s))" by (simp add: ex)
      then have "videoActive (ctx s) \<or> currentNonce r = videoNonce (ctx s)"
        by (rule afterPlay_ctx)
      with r nonce show ?thesis by auto
    next
      assume "\<exists>r \<in> set (pending (exec projects e s)). currentNonce r = n \<and> awaiting r = AwaitPlay"
      then show ?thesis by (auto simp: ex dest: in_remove1)
    qed
    with inv hov show ?thesis unfolding shownInCell_def by metis
  qed
next
  case (PlayRejected m)
  with inv show ?thesis
    by (auto simp: shownInCell_def hoveredUniform_def setVideoState_catch_def
          split: option.splits dest: in_remove1)
qed

lemma run_cells:
  assumes "\<forall>e \<in> set evs. \<not> isCall e"
    and "\<forall>r \<in> set (pending s). currentNonce r = n \<longrightarrow> cellId r = cid"
  shows "\<forall>r \<in> set (pending (run projects evs s)). currentNonce r = n \<longrightarrow> cellId r = cid"
  using assms(1)
proof (induction evs rule: rev_induct)
  case Nil
  show ?case using assms(2) by (simp add: run_Nil)
next
  case (snoc e evs)
  then have ih: "\<forall>r \<in> set (pending (run projects evs s)). currentNonce r = n \<longrightarrow> cellId r = cid"
    and e: "\<not> isCall e" by simp_all
  show ?case
  proof
    fix r assume "r \<in> set (pending (run projects (evs @ [e]) s))"
    then have "r \<in> set (pending (exec projects e (run projects evs s)))" by (simp add: run_snoc)
    from exec_pending [OF this] e
    obtain r0 where "r0 \<in> set (pending (run projects evs s))"
      "currentNonce r = currentNonce r0" "cellId r = cellId r0"
      by (auto simp: isCall_def)
    with ih show "currentNonce r = n \<longrightarrow> cellId r = cid" by auto
  qed
qed

lemma run_shownInCell:
  assumes calls: "\<forall>e \<in> set evs. \<not> isCall e"
    and loads: "\<forall>m. LoadDone m \<in> set evs \<longrightarrow> m = videoNonce (ctx s)"
    and inv: "shownInCell (videoNonce (ctx s)) cid s"
    and cells: "\<forall>r \<in> set (pending s). currentNonce r = videoNonce (ctx s) \<longrightarrow> cellId r = cid"
  shows "shownInCell (videoNonce (ctx s)) cid (run projects evs s)"
  using calls loads
proof (induction evs rule: rev_induct)
  case Nil
  show ?case using inv by (simp add: run_Nil)
next
  case (snoc e evs)
  then have ih: "shownInCell (videoNonce (ctx s)) cid (run projects evs s)"
    and e: "\<not> isCall e" "\<forall>m. e = LoadDone m \<longrightarrow> m = videoNonce (ctx s)"
    and evs: "\<forall>e \<in> set evs. \<not> isCall e" by simp_all
  have n: "videoNonce (ctx (run projects evs s)) = videoNonce (ctx s)"
    using evs by (rule run_nonce)
  have c: "\<forall>r \<in> set (pending (run projects evs s)).
             currentNonce r = videoNonce (ctx s) \<longrightarrow> cellId r = cid"
    using evs cells by (rule run_cells)
  show ?case
    unfolding run_snoc using ih n c e by (rule exec_shownInCell)
qed

lemma active_video_is_shown_in_cell_B:
  fixes s0 :: system and projects :: "Project list js" and cellA cellB :: "vec2 js"
    and pre post :: "event list"
  assumes pl: "plane (ctx s0) \<noteq> None" and vr: "videoRef (ctx s0) \<noteq> None"
    and wf: "wellFormed s0"
    and pre: "\<forall>e \<in> set pre. \<not> isCall e" and post: "\<forall>e \<in> set post. \<not> isCall e"
    and loads: "\<forall>m. LoadDone m \<in> set post \<longrightarrow> m = videoNonce (ctx s0) + 2"
  defines "s \<equiv> run projects post
                 (exec projects (Call cellB) (run projects pre (exec projects (Call cellA) s0)))"
  shows "videoActive (ctx s) \<longrightarrow> hoveredUniform s = cellB"
proof -
  let ?s1 = "exec projects (Call cellA) s0"
  let ?s2 = "run projects pre ?s1"
  let ?sB = "exec projects (Call cellB) ?s2"
  have call: "isCall (Call cid)" for cid by (simp add: isCall_def)
  have n1: "videoNonce (ctx ?s1) = videoNonce (ctx s0) + 1"
    unfolding exec_nonce [of projects "Call cellA" s0] using call by simp
  have n2: "videoNonce (ctx ?s2) = videoNonce (ctx s0) + 1"
    unfolding run_nonce [OF pre] by (rule n1)
  have nB: "videoNonce (ctx ?sB) = videoNonce (ctx s0) + 2"
    unfolding exec_nonce [of projects "Call cellB" ?s2] n2 using call by simp
  have wf2: "wellFormed ?s2"
    using wf by (intro run_wellFormed exec_wellFormed)
  have pres2: "plane (ctx ?s2) \<noteq> None" "videoRef (ctx ?s2) \<noteq> None"
    unfolding run_present exec_present using pl vr by blast+
  have ctxB: "ctx ?sB = fst (setVideoState projects cellB (ctx ?s2))"
    by (simp add: split_beta Let_def)
  have inactive: "\<not> videoActive (ctx ?sB)"
    unfolding ctxB using pres2 by (rule setVideoState_inactive)
  have fresh: "snd (setVideoState projects cellB (ctx ?s2)) = Some r"
    if "r \<in> set (pending ?sB)" "currentNonce r = videoNonce (ctx ?sB)" for r
  proof -
    from exec_pending [OF that(1)]
    show ?thesis
    proof
      assume "\<exists>r0 \<in> set (pending ?s2). currentNonce r = currentNonce r0 \<and> newSrc r = newSrc r0
            \<and> cellId r = cellId r0"
      then have "currentNonce r \<le> videoNonce (ctx s0) + 1"
        using wf2 n2 by (auto simp: wellFormed_def)
      with that(2) nB show ?thesis by simp
    next
      assume "\<exists>cid. Call cellB = Call cid \<and> snd (setVideoState projects cid (ctx ?s2)) = Some r"
      then show ?thesis by simp
    qed
  qed
  have cells: "\<forall>r \<in> set (pending ?sB). currentNonce r = videoNonce (ctx ?sB) \<longrightarrow> cellId r = cellB"
    using fresh setVideoState_request by blast
  have inv: "shownInCell (videoNonce (ctx ?sB)) cellB ?sB"
    unfolding shownInCell_def
  proof
    assume "videoActive (ctx ?sB)
        \<or> (\<exists>r \<in> set (pending ?sB). currentNonce r = videoNonce (ctx ?sB) \<and> awaiting r = AwaitPlay)"
    with inactive obtain r where r: "r \<in> set (pending ?sB)"
      "currentNonce r = videoNonce (ctx ?sB)" "awaiting r = AwaitPlay" by blast
    from fresh [OF r(1,2)] r(3) show "hoveredUniform ?sB = cellB"
      unfolding hoveredUniform_def ctxB by (rule setVideoState_hovered)
  qed
  have loads': "\<forall>m. LoadDone m \<in> set post \<longrightarrow> m = videoNonce (ctx ?sB)"
    using loads nB by simp
  have "shownInCell (videoNonce (ctx ?sB)) cellB (run projects post ?sB)"
    using post loads' inv cells by (rule run_shownInCell)
  then show ?thesis by (simp add: s_def shownInCell_def)
qed

end
